theory Spec2Isabelle
  imports Main "HOL-Library.AList" "HOL-Library.Sublist" "HOL-Library.Word"
begin

section \<open>JavaScript values and the JSON built-ins\<close>

text \<open>
  The cache layer of \<^verbatim>\<open>config/redis.js\<close> stores \<^verbatim>\<open>JSON.stringify(value)\<close> and
  returns \<^verbatim>\<open>JSON.parse(payload)\<close>.  A JavaScript value is modelled by \<open>jsval\<close>:
  \<open>null\<close>, booleans, integral numbers, strings (the bytes of their UTF-8 encoding),
  arrays, objects as the list of their own properties in property order, and BigInt
  as the one kind of value on which \<^verbatim>\<open>JSON.stringify\<close> throws.  Numbers with a
  fraction or an exponent, \<^verbatim>\<open>undefined\<close> and objects with a \<^verbatim>\<open>toJSON\<close> method are
  outside the model: a value stands for the plain data that is serialised.
\<close>

datatype jsval =
    JNull
  | JBool bool
  | JNum int
  | JStr string
  | JArr "jsval list"
  | JObj "(string \<times> jsval) list"
  | JBigInt int

datatype js_error =
    TypeError | SyntaxError | ReplyError | TransportError | StoreError | ValidationError | CastError

subsection \<open>JSON.stringify\<close>

definition digit_char :: "nat \<Rightarrow> char" where
  "digit_char n = char_of (48 + n)"

fun digits :: "nat \<Rightarrow> string" where
  "digits n = (if n < 10 then [digit_char n] else digits (n div 10) @ [digit_char (n mod 10)])"

declare digits.simps [simp del]

definition show_int :: "int \<Rightarrow> string" where
  "show_int i = (if i < 0 then CHR ''-'' # digits (nat (- i)) else digits (nat i))"

definition hex_char :: "nat \<Rightarrow> char" where
  "hex_char n = ''0123456789abcdef'' ! (n mod 16)"

text \<open>
  The escapes of \<^verbatim>\<open>QuoteJSONString\<close>: the double quote (0x22) and the backslash
  (0x5C), the five short escapes, and \<^verbatim>\<open>\u00XX\<close> for every other control character
  below 0x20; every other byte is copied.
\<close>

definition escape_char :: "char \<Rightarrow> string" where
  "escape_char c =
     (if c = CHR 0x22 then [CHR 0x5C, CHR 0x22]
      else if c = CHR 0x5C then [CHR 0x5C, CHR 0x5C]
      else if c = CHR 0x08 then [CHR 0x5C, CHR ''b'']
      else if c = CHR 0x0C then [CHR 0x5C, CHR ''f'']
      else if c = CHR 0x0A then [CHR 0x5C, CHR ''n'']
      else if c = CHR 0x0D then [CHR 0x5C, CHR ''r'']
      else if c = CHR 0x09 then [CHR 0x5C, CHR ''t'']
      else if of_char c < (32::nat) then
        [CHR 0x5C, CHR ''u'', CHR ''0'', CHR ''0'',
         hex_char (of_char c div 16), hex_char (of_char c mod 16)]
      else [c])"

definition quote :: "string \<Rightarrow> string" where
  "quote s = CHR 0x22 # concat (map escape_char s) @ [CHR 0x22]"

fun join :: "string \<Rightarrow> string list \<Rightarrow> string" where
  "join sep [] = []"
| "join sep [x] = x"
| "join sep (x # y # ys) = x @ sep @ join sep (y # ys)"

text \<open>
  \<open>ser\<close> is the text \<^verbatim>\<open>JSON.stringify\<close> builds (no indentation);
  \<open>has_bigint\<close> says that the traversal meets a BigInt, where the built-in throws a
  TypeError instead of returning.
\<close>

fun ser :: "jsval \<Rightarrow> string" where
  "ser JNull = ''null''"
| "ser (JBool b) = (if b then ''true'' else ''false'')"
| "ser (JNum i) = show_int i"
| "ser (JStr s) = quote s"
| "ser (JArr xs) = ''['' @ join '','' (map ser xs) @ '']''"
| "ser (JObj fs) = ''{'' @ join '','' (map (\<lambda>kv. quote (fst kv) @ '':'' @ ser (snd kv)) fs) @ ''}''"
| "ser (JBigInt i) = []"

fun has_bigint :: "jsval \<Rightarrow> bool" where
  "has_bigint (JBigInt i) = True"
| "has_bigint (JArr xs) = list_ex has_bigint xs"
| "has_bigint (JObj fs) = list_ex (\<lambda>kv. has_bigint (snd kv)) fs"
| "has_bigint v = False"

definition JSON_stringify :: "jsval \<Rightarrow> js_error + string" where
  "JSON_stringify v = (if has_bigint v then Inl TypeError else Inr (ser v))"

subsection \<open>JSON.parse\<close>

definition is_ws :: "char \<Rightarrow> bool" where
  "is_ws c = (c = CHR 0x20 \<or> c = CHR 0x09 \<or> c = CHR 0x0A \<or> c = CHR 0x0D)"

definition skip_ws :: "string \<Rightarrow> string" where
  "skip_ws s = dropWhile is_ws s"

definition is_digit :: "char \<Rightarrow> bool" where
  "is_digit c = (48 \<le> (of_char c :: nat) \<and> (of_char c :: nat) \<le> 57)"

definition digit_val :: "char \<Rightarrow> nat" where
  "digit_val c = of_char c - 48"

definition nat_of_digits :: "string \<Rightarrow> nat" where
  "nat_of_digits ds = foldl (\<lambda>acc c. 10 * acc + digit_val c) 0 ds"

definition hex_val :: "char \<Rightarrow> nat option" where
  "hex_val c =
     (let n = (of_char c :: nat) in
      if 48 \<le> n \<and> n \<le> 57 then Some (n - 48)
      else if 97 \<le> n \<and> n \<le> 102 then Some (n - 87)
      else if 65 \<le> n \<and> n \<le> 70 then Some (n - 55)
      else None)"

definition cons_char :: "char \<Rightarrow> (string \<times> string) option \<Rightarrow> (string \<times> string) option" where
  "cons_char c r = (case r of None \<Rightarrow> None | Some (s, rest) \<Rightarrow> Some (c # s, rest))"

text \<open>
  The characters of a string literal after its opening quote, up to the closing
  quote: the decoded string and the text that follows.  A \<^verbatim>\<open>\uXXXX\<close> escape is
  decoded when the code point is below 0x80; other code points are outside the model
  and rejected.
\<close>

fun parse_string_body :: "string \<Rightarrow> (string \<times> string) option" where
  "parse_string_body [] = None"
| "parse_string_body (c # r) =
     (if c = CHR 0x22 then Some ([], r)
      else if c = CHR 0x5C then
        (case r of
           [] \<Rightarrow> None
         | e # r1 \<Rightarrow>
             if e = CHR 0x22 then cons_char (CHR 0x22) (parse_string_body r1)
             else if e = CHR 0x5C then cons_char (CHR 0x5C) (parse_string_body r1)
             else if e = CHR ''/'' then cons_char (CHR ''/'') (parse_string_body r1)
             else if e = CHR ''b'' then cons_char (CHR 0x08) (parse_string_body r1)
             else if e = CHR ''f'' then cons_char (CHR 0x0C) (parse_string_body r1)
             else if e = CHR ''n'' then cons_char (CHR 0x0A) (parse_string_body r1)
             else if e = CHR ''r'' then cons_char (CHR 0x0D) (parse_string_body r1)
             else if e = CHR ''t'' then cons_char (CHR 0x09) (parse_string_body r1)
             else if e = CHR ''u'' then
               (case r1 of
                  a # b # c # d # r2 \<Rightarrow>
                    (case (hex_val a, hex_val b, hex_val c, hex_val d) of
                       (Some x3, Some x2, Some x1, Some x0) \<Rightarrow>
                         (let n = ((x3 * 16 + x2) * 16 + x1) * 16 + x0 in
                          if n < 128 then cons_char (char_of n) (parse_string_body r2)
                          else None)
                     | _ \<Rightarrow> None)
                | _ \<Rightarrow> None)
             else None)
      else if of_char c < (32::nat) then None
      else cons_char c (parse_string_body r))"

text \<open>
  A number: an optional minus sign and a digit run without a leading zero.  A
  fraction or an exponent part is outside the model and rejected.
\<close>

definition parse_number :: "string \<Rightarrow> (jsval \<times> string) option" where
  "parse_number s =
     (let neg = (s \<noteq> [] \<and> hd s = CHR ''-'');
          s1 = (if neg then tl s else s);
          ds = takeWhile is_digit s1;
          rest = dropWhile is_digit s1
      in if ds = [] then None
         else if 1 < length ds \<and> hd ds = CHR ''0'' then None
         else if rest \<noteq> [] \<and> hd rest \<in> set ''.eE'' then None
         else Some (JNum (if neg then - int (nat_of_digits ds) else int (nat_of_digits ds)), rest))"

text \<open>
  The recursive descent over values, array elements and object members.  The first
  argument bounds the number of calls that follow one another; \<open>JSON_parse\<close> below
  starts with the length of the text, and every call consumes a character of it.
  A property that occurs twice keeps its first place and its last value.
\<close>

fun parse_value :: "nat \<Rightarrow> string \<Rightarrow> (jsval \<times> string) option"
  and parse_elements :: "nat \<Rightarrow> string \<Rightarrow> (jsval list \<times> string) option"
  and parse_members :: "nat \<Rightarrow> string \<Rightarrow> ((string \<times> jsval) list \<times> string) option"
where
  "parse_value 0 s = None"
| "parse_value (Suc n) s =
     (case skip_ws s of
        [] \<Rightarrow> None
      | c # r \<Rightarrow>
          if c = CHR ''n'' then (if take 3 r = ''ull'' then Some (JNull, drop 3 r) else None)
          else if c = CHR ''t'' then (if take 3 r = ''rue'' then Some (JBool True, drop 3 r) else None)
          else if c = CHR ''f'' then (if take 4 r = ''alse'' then Some (JBool False, drop 4 r) else None)
          else if c = CHR 0x22 then
            (case parse_string_body r of
               None \<Rightarrow> None
             | Some (str, r1) \<Rightarrow> Some (JStr str, r1))
          else if c = CHR ''['' then
            (case skip_ws r of
               [] \<Rightarrow> None
             | d # r1 \<Rightarrow>
                 if d = CHR '']'' then Some (JArr [], r1)
                 else (case parse_elements n (d # r1) of
                         None \<Rightarrow> None
                       | Some (vs, r2) \<Rightarrow> Some (JArr vs, r2)))
          else if c = CHR ''{'' then
            (case skip_ws r of
               [] \<Rightarrow> None
             | d # r1 \<Rightarrow>
                 if d = CHR ''}'' then Some (JObj [], r1)
                 else (case parse_members n (d # r1) of
                         None \<Rightarrow> None
                       | Some (ms, r2) \<Rightarrow>
                           Some (JObj (foldl (\<lambda>acc kv. AList.update (fst kv) (snd kv) acc) [] ms), r2)))
          else parse_number (c # r))"
| "parse_elements 0 s = None"
| "parse_elements (Suc n) s =
     (case parse_value n s of
        None \<Rightarrow> None
      | Some (v, r) \<Rightarrow>
          (case skip_ws r of
             [] \<Rightarrow> None
           | c # r1 \<Rightarrow>
               if c = CHR '','' then
                 (case parse_elements n r1 of
                    None \<Rightarrow> None
                  | Some (vs, r2) \<Rightarrow> Some (v # vs, r2))
               else if c = CHR '']'' then Some ([v], r1)
               else None))"
| "parse_members 0 s = None"
| "parse_members (Suc n) s =
     (case skip_ws s of
        [] \<Rightarrow> None
      | q # r \<Rightarrow>
          if q \<noteq> CHR 0x22 then None
          else
            (case parse_string_body r of
               None \<Rightarrow> None
             | Some (k, r1) \<Rightarrow>
                 (case skip_ws r1 of
                    [] \<Rightarrow> None
                  | c # r2 \<Rightarrow>
                      if c \<noteq> CHR '':'' then None
                      else
                        (case parse_value n r2 of
                           None \<Rightarrow> None
                         | Some (v, r3) \<Rightarrow>
                             (case skip_ws r3 of
                                [] \<Rightarrow> None
                              | d # r4 \<Rightarrow>
                                  if d = CHR '','' then
                                    (case parse_members n r4 of
                                       None \<Rightarrow> None
                                     | Some (ms, r5) \<Rightarrow> Some ((k, v) # ms, r5))
                                  else if d = CHR ''}'' then Some ([(k, v)], r4)
                                  else None)))))"

definition JSON_parse :: "string \<Rightarrow> js_error + jsval" where
  "JSON_parse s =
     (case parse_value (length s) s of
        None \<Rightarrow> Inl SyntaxError
      | Some (v, r) \<Rightarrow> if skip_ws r = [] then Inr v else Inl SyntaxError)"

subsection \<open>JSON-representable values\<close>

text \<open>
  The values for which the model stands for a JavaScript value that JSON represents:
  no BigInt, integers in the safe range, and objects whose property names are
  distinct and none of them an array index (the engine lists array indices first,
  whatever the order of insertion).
\<close>

definition is_array_index :: "string \<Rightarrow> bool" where
  "is_array_index k = (k \<noteq> [] \<and> list_all is_digit k \<and> (k = ''0'' \<or> hd k \<noteq> CHR ''0''))"

fun json_representable :: "jsval \<Rightarrow> bool" where
  "json_representable JNull = True"
| "json_representable (JBool b) = True"
| "json_representable (JNum i) = (\<bar>i\<bar> \<le> 9007199254740991)"
| "json_representable (JStr s) = True"
| "json_representable (JArr xs) = list_all json_representable xs"
| "json_representable (JObj fs) =
     (distinct (map fst fs)
      \<and> list_all (\<lambda>kv. \<not> is_array_index (fst kv) \<and> json_representable (snd kv)) fs)"
| "json_representable (JBigInt i) = False"

text \<open>What may follow a value inside a JSON text: nothing, or \<open>,\<close> \<open>]\<close> \<open>}\<close>.\<close>

definition delim :: "string \<Rightarrow> bool" where
  "delim rest = (rest = [] \<or> hd rest \<in> set '',]}'')"

definition starts_value :: "string \<Rightarrow> bool" where
  "starts_value s = (s \<noteq> [] \<and> \<not> is_ws (hd s) \<and> hd s \<noteq> CHR '']'' \<and> hd s \<noteq> CHR ''}'')"

subsection \<open>Buffer.from(text).toString('base64')\<close>

definition b64_char :: "nat \<Rightarrow> char" where
  "b64_char n = ''ABCDEFGHIJKLMNOPQRSTUVWXYZabcdefghijklmnopqrstuvwxyz0123456789+/'' ! (n mod 64)"

text \<open>Three bytes give four characters; a last group of one or two bytes is padded with \<open>=\<close>.\<close>

fun base64 :: "string \<Rightarrow> string" where
  "base64 [] = []"
| "base64 [a] =
     (let x = (of_char a :: nat)
      in [b64_char (x div 4), b64_char ((x mod 4) * 16), CHR ''='', CHR ''=''])"
| "base64 [a, b] =
     (let x = (of_char a :: nat); y = (of_char b :: nat)
      in [b64_char (x div 4), b64_char ((x mod 4) * 16 + y div 16),
          b64_char ((y mod 16) * 4), CHR ''=''])"
| "base64 (a # b # c # r) =
     (let x = (of_char a :: nat); y = (of_char b :: nat); z = (of_char c :: nat)
      in [b64_char (x div 4), b64_char ((x mod 4) * 16 + y div 16),
          b64_char ((y mod 16) * 4 + z div 64), b64_char (z mod 64)] @ base64 r)"

section \<open>The key/value service\<close>

text \<open>
  The Redis server behind \<^verbatim>\<open>redisClient\<close>: the stored entries (key, time to live in
  seconds as given to SETEX, payload), the commands issued so far, and which calls
  fail (call number \<open>n\<close> rejects when \<open>faulty n\<close>: connection loss, timeout, closed
  client).  A failed call leaves the entries as they are.
\<close>

datatype command =
    GET string
  | SETEX string nat string
  | DEL "string list"
  | KEYS string

record server =
  kv :: "(string \<times> nat \<times> string) list"
  calls :: "command list"
  faulty :: "nat \<Rightarrow> bool"

text \<open>
  Glob-style matching of the KEYS command: \<open>*\<close> any run of characters, \<open>?\<close> one
  character, \<open>[...]\<close> a character class (with \<open>^\<close> for negation and \<open>a-b\<close> ranges),
  backslash to quote the next character.
\<close>

fun glob :: "string \<Rightarrow> string \<Rightarrow> bool"
  and glob_class :: "string \<Rightarrow> bool \<Rightarrow> bool \<Rightarrow> char \<Rightarrow> string \<Rightarrow> bool"
where
  "glob [] s = (s = [])"
| "glob (p # ps) s =
     (if p = CHR ''*'' then
        (glob ps s \<or> (case s of [] \<Rightarrow> False | c # t \<Rightarrow> glob (p # ps) t))
      else
        (case s of
           [] \<Rightarrow> False
         | c # t \<Rightarrow>
             if p = CHR ''?'' then glob ps t
             else if p = CHR ''['' then
               (if ps \<noteq> [] \<and> hd ps = CHR ''^'' then glob_class (tl ps) True False c t
                else glob_class ps False False c t)
             else if p = CHR 0x5C \<and> ps \<noteq> [] then (hd ps = c \<and> glob (tl ps) t)
             else (p = c \<and> glob ps t)))"
| "glob_class [] neg m c t = (m \<noteq> neg \<and> t = [])"
| "glob_class (q # qs) neg m c t =
     (if q = CHR 0x5C \<and> qs \<noteq> [] then glob_class (tl qs) neg (m \<or> hd qs = c) c t
      else if q = CHR '']'' then (m \<noteq> neg \<and> glob qs t)
      else if 2 \<le> length qs \<and> hd qs = CHR ''-'' then
        (let lo = min (of_char q :: nat) (of_char (hd (tl qs)));
             hi = max (of_char q :: nat) (of_char (hd (tl qs)))
         in glob_class (tl (tl qs)) neg (m \<or> (lo \<le> of_char c \<and> of_char c \<le> hi)) c t)
      else glob_class qs neg (m \<or> q = c) c t)"

text \<open>A pattern text without the special characters of the matcher.\<close>

definition glob_free :: "string \<Rightarrow> bool" where
  "glob_free p = (\<forall>c \<in> set p. c \<noteq> CHR ''*'' \<and> c \<noteq> CHR ''?'' \<and> c \<noteq> CHR ''['' \<and> c \<noteq> CHR 0x5C)"

definition issue :: "command \<Rightarrow> server \<Rightarrow> server" where
  "issue c s = s\<lparr>calls := calls s @ [c]\<rparr>"

definition fails_now :: "server \<Rightarrow> bool" where
  "fails_now s = faulty s (length (calls s))"

definition client_get :: "string \<Rightarrow> server \<Rightarrow> (js_error + string option) \<times> server" where
  "client_get k s =
     (if fails_now s then (Inl TransportError, issue (GET k) s)
      else (Inr (map_option snd (map_of (kv s) k)), issue (GET k) s))"

text \<open>SETEX refuses a time to live of zero with an error reply.\<close>

definition client_setEx :: "string \<Rightarrow> nat \<Rightarrow> string \<Rightarrow> server \<Rightarrow> (js_error + unit) \<times> server" where
  "client_setEx k ttl v s =
     (if fails_now s then (Inl TransportError, issue (SETEX k ttl v) s)
      else if ttl = 0 then (Inl ReplyError, issue (SETEX k ttl v) s)
      else (Inr (), (issue (SETEX k ttl v) s)\<lparr>kv := AList.update k (ttl, v) (kv s)\<rparr>))"

definition client_del :: "string list \<Rightarrow> server \<Rightarrow> (js_error + unit) \<times> server" where
  "client_del ks s =
     (if fails_now s then (Inl TransportError, issue (DEL ks) s)
      else (Inr (), (issue (DEL ks) s)\<lparr>kv := filter (\<lambda>e. fst e \<notin> set ks) (kv s)\<rparr>))"

definition client_keys :: "string \<Rightarrow> server \<Rightarrow> (js_error + string list) \<times> server" where
  "client_keys pat s =
     (if fails_now s then (Inl TransportError, issue (KEYS pat) s)
      else (Inr (filter (glob pat) (map fst (kv s))), issue (KEYS pat) s))"

section \<open>config/redis.js\<close>

text \<open>
  The module state is the variable \<^verbatim>\<open>redisClient\<close> (\<open>None\<close> is \<^verbatim>\<open>null\<close>) together
  with the server the client talks to.  An operation takes the state and returns the
  outcome and the new state; \<open>Inl e\<close> is an exception \<open>e\<close> that leaves the operation.
  Messages written with \<^verbatim>\<open>console.error\<close> are not part of the state.
\<close>

datatype client = Client

record cache_state =
  redisClient :: "client option"
  redis :: server

type_synonym ('s, 'a) io = "'s \<Rightarrow> (js_error + 'a) \<times> 's"

definition return :: "'a \<Rightarrow> ('s, 'a) io" where
  "return x s = (Inr x, s)"

definition result :: "js_error + 'a \<Rightarrow> ('s, 'a) io" where
  "result r s = (r, s)"

definition await :: "('s, 'a) io \<Rightarrow> ('a \<Rightarrow> ('s, 'b) io) \<Rightarrow> ('s, 'b) io" where
  "await m f s = (case m s of (Inl e, s1) \<Rightarrow> (Inl e, s1) | (Inr x, s1) \<Rightarrow> f x s1)"

definition try_catch :: "('s, 'a) io \<Rightarrow> (js_error \<Rightarrow> ('s, 'a) io) \<Rightarrow> ('s, 'a) io" where
  "try_catch body handler s = (case body s of (Inl e, s1) \<Rightarrow> handler e s1 | (Inr x, s1) \<Rightarrow> (Inr x, s1))"

definition on_client :: "(server \<Rightarrow> (js_error + 'a) \<times> server) \<Rightarrow> (cache_state, 'a) io" where
  "on_client cmd st = (case cmd (redis st) of (r, sv) \<Rightarrow> (r, st\<lparr>redis := sv\<rparr>))"

text \<open>\<^verbatim>\<open>data ? JSON.parse(data) : null\<close>: a missing key and the empty payload are falsy.\<close>

definition parse_or_null :: "string option \<Rightarrow> (cache_state, jsval) io" where
  "parse_or_null data =
     (case data of
        None \<Rightarrow> return JNull
      | Some d \<Rightarrow> if d = [] then return JNull else result (JSON_parse d))"

definition cacheUser :: "string \<Rightarrow> jsval \<Rightarrow> (cache_state, unit) io" where
  "cacheUser userId userData st =
     (if redisClient st = None then (Inr (), st)
      else try_catch
             (await (result (JSON_stringify userData))
                (\<lambda>data. on_client (client_setEx (''user:'' @ userId) 3600 data)))
             (\<lambda>error. return ()) st)"

definition getCachedUser :: "string \<Rightarrow> (cache_state, jsval) io" where
  "getCachedUser userId st =
     (if redisClient st = None then (Inr JNull, st)
      else try_catch
             (await (on_client (client_get (''user:'' @ userId))) parse_or_null)
             (\<lambda>error. return JNull) st)"

definition invalidateUserCache :: "string \<Rightarrow> (cache_state, unit) io" where
  "invalidateUserCache userId st =
     (if redisClient st = None then (Inr (), st)
      else try_catch (on_client (client_del [''user:'' @ userId])) (\<lambda>error. return ()) st)"

definition cacheItinerary :: "string \<Rightarrow> jsval \<Rightarrow> (cache_state, unit) io" where
  "cacheItinerary itineraryId itineraryData st =
     (if redisClient st = None then (Inr (), st)
      else try_catch
             (await (result (JSON_stringify itineraryData))
                (\<lambda>data. on_client (client_setEx (''itinerary:'' @ itineraryId) 1800 data)))
             (\<lambda>error. return ()) st)"

definition getCachedItinerary :: "string \<Rightarrow> (cache_state, jsval) io" where
  "getCachedItinerary itineraryId st =
     (if redisClient st = None then (Inr JNull, st)
      else try_catch
             (await (on_client (client_get (''itinerary:'' @ itineraryId))) parse_or_null)
             (\<lambda>error. return JNull) st)"

definition invalidateItineraryCache :: "string \<Rightarrow> (cache_state, unit) io" where
  "invalidateItineraryCache itineraryId st =
     (if redisClient st = None then (Inr (), st)
      else try_catch (on_client (client_del [''itinerary:'' @ itineraryId])) (\<lambda>error. return ()) st)"

definition cacheItineraryList :: "string \<Rightarrow> jsval \<Rightarrow> jsval \<Rightarrow> (cache_state, unit) io" where
  "cacheItineraryList userId filters data st =
     (if redisClient st = None then (Inr (), st)
      else try_catch
             (await (result (JSON_stringify filters))
                (\<lambda>filterKey. await (result (JSON_stringify data))
                   (\<lambda>cacheData.
                      on_client (client_setEx (''itineraries:'' @ userId @ '':'' @ base64 filterKey)
                                   600 cacheData))))
             (\<lambda>error. return ()) st)"

definition getCachedItineraryList :: "string \<Rightarrow> jsval \<Rightarrow> (cache_state, jsval) io" where
  "getCachedItineraryList userId filters st =
     (if redisClient st = None then (Inr JNull, st)
      else try_catch
             (await (result (JSON_stringify filters))
                (\<lambda>filterKey.
                   await (on_client (client_get (''itineraries:'' @ userId @ '':'' @ base64 filterKey)))
                     parse_or_null))
             (\<lambda>error. return JNull) st)"

definition invalidateUserItineraryCaches :: "string \<Rightarrow> (cache_state, unit) io" where
  "invalidateUserItineraryCaches userId st =
     (if redisClient st = None then (Inr (), st)
      else try_catch
             (await (on_client (client_keys (''itineraries:'' @ userId @ '':*'')))
                (\<lambda>keys. if 0 < length keys then on_client (client_del keys) else return ()))
             (\<lambda>error. return ()) st)"

definition cachePublicItineraries :: "jsval \<Rightarrow> jsval \<Rightarrow> (cache_state, unit) io" where
  "cachePublicItineraries filters data st =
     (if redisClient st = None then (Inr (), st)
      else try_catch
             (await (result (JSON_stringify filters))
                (\<lambda>filterKey. await (result (JSON_stringify data))
                   (\<lambda>cacheData.
                      on_client (client_setEx (''public_itineraries:'' @ base64 filterKey)
                                   300 cacheData))))
             (\<lambda>error. return ()) st)"

definition getCachedPublicItineraries :: "jsval \<Rightarrow> (cache_state, jsval) io" where
  "getCachedPublicItineraries filters st =
     (if redisClient st = None then (Inr JNull, st)
      else try_catch
             (await (result (JSON_stringify filters))
                (\<lambda>filterKey.
                   await (on_client (client_get (''public_itineraries:'' @ base64 filterKey)))
                     parse_or_null))
             (\<lambda>error. return JNull) st)"

definition invalidatePublicItineraryCaches :: "(cache_state, unit) io" where
  "invalidatePublicItineraryCaches st =
     (if redisClient st = None then (Inr (), st)
      else try_catch
             (await (on_client (client_keys ''public_itineraries:*''))
                (\<lambda>keys. if 0 < length keys then on_client (client_del keys) else return ()))
             (\<lambda>error. return ()) st)"

text \<open>The generic operations; \<^verbatim>\<open>cache\<close> has the default \<^verbatim>\<open>ttl = 3600\<close>.\<close>

definition cache :: "string \<Rightarrow> jsval \<Rightarrow> nat option \<Rightarrow> (cache_state, unit) io" where
  "cache key data ttl st =
     (if redisClient st = None then (Inr (), st)
      else try_catch
             (await (result (JSON_stringify data))
                (\<lambda>cacheData.
                   on_client (client_setEx key (case ttl of None \<Rightarrow> 3600 | Some t \<Rightarrow> t) cacheData)))
             (\<lambda>error. return ()) st)"

definition getCache :: "string \<Rightarrow> (cache_state, jsval) io" where
  "getCache key st =
     (if redisClient st = None then (Inr JNull, st)
      else try_catch (await (on_client (client_get key)) parse_or_null) (\<lambda>error. return JNull) st)"

definition deleteCache :: "string \<Rightarrow> (cache_state, unit) io" where
  "deleteCache key st =
     (if redisClient st = None then (Inr (), st)
      else try_catch (on_client (client_del [key])) (\<lambda>error. return ()) st)"

section \<open>The persistent store\<close>

text \<open>
  The itinerary controller reads and writes MongoDB through the Mongoose model
  \<^verbatim>\<open>Itinerary\<close>.  Identifiers are ObjectIds, twelve bytes, whose \<^verbatim>\<open>toString()\<close> is
  the 24 lower-case hexadecimal digits; the routes admit a request only when
  \<^verbatim>\<open>req.params.id\<close> is such an identifier (\<^verbatim>\<open>validateObjectId\<close>).
\<close>

datatype objectid = ObjectId "96 word"

definition toHexString :: "objectid \<Rightarrow> string" where
  "toHexString oid =
     (case oid of ObjectId w \<Rightarrow> map (\<lambda>i. hex_char (unat (drop_bit (4 * (23 - i)) w))) [0..<24])"

record user =
  user_id :: objectid
  user_name :: string
  user_email :: string

text \<open>
  An itinerary document: its \<^verbatim>\<open>_id\<close>, the owner reference \<^verbatim>\<open>userId\<close>, and the
  remaining properties (title, destination, dates, activities).
\<close>

record itinerary =
  itinerary_id :: objectid
  userId :: objectid
  props :: "(string \<times> jsval) list"

text \<open>
  The operations of the store take the casting and validation of a request body as a
  parameter; the one that Mongoose derives from the schema of
  \<^verbatim>\<open>models/Itinerary.js\<close> is defined in the next section.  An update cannot change
  the \<^verbatim>\<open>_id\<close> of a document.
\<close>

record schema =
  cast_create :: "jsval \<Rightarrow> js_error + (string \<times> jsval) list"
  cast_update :: "itinerary \<Rightarrow> jsval \<Rightarrow> js_error + itinerary"

record world =
  cache_st :: cache_state
  itineraries :: "itinerary list"
  users :: "user list"
  next_id :: "96 word"
  db_up :: bool

text \<open>The result of \<^verbatim>\<open>.populate('userId', 'name email')\<close>: the owner is the user
  document, or \<^verbatim>\<open>null\<close> when no such user exists.\<close>

record populated =
  doc :: itinerary
  owner :: "user option"

definition throw :: "js_error \<Rightarrow> ('s, 'a) io" where
  "throw e s = (Inl e, s)"

definition findById :: "objectid \<Rightarrow> (world, itinerary option) io" where
  "findById i w =
     (if db_up w then (Inr (find (\<lambda>d. itinerary_id d = i) (itineraries w)), w)
      else (Inl StoreError, w))"

definition populate :: "itinerary \<Rightarrow> (world, populated) io" where
  "populate d w =
     (if db_up w then (Inr \<lparr>doc = d, owner = find (\<lambda>u. user_id u = userId d) (users w)\<rparr>, w)
      else (Inl StoreError, w))"

definition create :: "schema \<Rightarrow> objectid \<Rightarrow> jsval \<Rightarrow> (world, itinerary) io" where
  "create sch uid body w =
     (if \<not> db_up w then (Inl StoreError, w)
      else (case cast_create sch body of
              Inl e \<Rightarrow> (Inl e, w)
            | Inr fs \<Rightarrow>
                (let d = \<lparr>itinerary_id = ObjectId (next_id w), userId = uid, props = fs\<rparr>
                 in (Inr d, w\<lparr>itineraries := itineraries w @ [d], next_id := next_id w + 1\<rparr>))))"

definition findByIdAndUpdate :: "schema \<Rightarrow> objectid \<Rightarrow> jsval \<Rightarrow> (world, itinerary option) io" where
  "findByIdAndUpdate sch i body w =
     (if \<not> db_up w then (Inl StoreError, w)
      else (case find (\<lambda>d. itinerary_id d = i) (itineraries w) of
              None \<Rightarrow> (Inr None, w)
            | Some d \<Rightarrow>
                (case cast_update sch d body of
                   Inl e \<Rightarrow> (Inl e, w)
                 | Inr d1 \<Rightarrow>
                     (let d2 = d1\<lparr>itinerary_id := i\<rparr>
                      in (Inr (Some d2),
                          w\<lparr>itineraries :=
                               map (\<lambda>x. if itinerary_id x = i then d2 else x) (itineraries w)\<rparr>)))))"

definition findByIdAndDelete :: "objectid \<Rightarrow> (world, unit) io" where
  "findByIdAndDelete i w =
     (if \<not> db_up w then (Inl StoreError, w)
      else (Inr (), w\<lparr>itineraries := filter (\<lambda>d. itinerary_id d \<noteq> i) (itineraries w)\<rparr>))"

definition user_json :: "user \<Rightarrow> jsval" where
  "user_json u =
     JObj [(''_id'', JStr (toHexString (user_id u))), (''name'', JStr (user_name u)),
           (''email'', JStr (user_email u))]"

definition toJSON :: "populated \<Rightarrow> jsval" where
  "toJSON p =
     JObj ((''_id'', JStr (toHexString (itinerary_id (doc p))))
           # (''userId'', (case owner p of None \<Rightarrow> JNull | Some u \<Rightarrow> user_json u))
           # props (doc p))"

section \<open>models/Itinerary.js\<close>

text \<open>
  The schema declares, for each path, its type and the options \<^verbatim>\<open>required\<close> and
  \<^verbatim>\<open>trim\<close>; \<^verbatim>\<open>activities\<close> is an array of subdocuments with the schema
  \<^verbatim>\<open>activitySchema\<close>.  The option \<^verbatim>\<open>timestamps\<close>, the indexes and the virtual
  \<^verbatim>\<open>duration\<close> add generated properties to the document that is printed and have no
  part in what a request body must be; they are not modelled, and a document is
  described by the paths that were given to it.
\<close>

datatype schema_type = String_t | Date_t | ObjectId_t

record schema_path =
  path :: string
  path_type :: schema_type
  required :: bool
  trim :: bool

record schema_decl =
  paths :: "schema_path list"
  document_arrays :: "(string \<times> schema_path list) list"

definition activitySchema :: "schema_path list" where
  "activitySchema =
     [\<lparr>path = ''title'', path_type = String_t, required = True, trim = True\<rparr>,
      \<lparr>path = ''time'', path_type = String_t, required = True, trim = True\<rparr>,
      \<lparr>path = ''description'', path_type = String_t, required = False, trim = True\<rparr>,
      \<lparr>path = ''location'', path_type = String_t, required = True, trim = True\<rparr>]"

definition itinerarySchema :: schema_decl where
  "itinerarySchema =
     \<lparr>paths =
        [\<lparr>path = ''userId'', path_type = ObjectId_t, required = True, trim = False\<rparr>,
         \<lparr>path = ''title'', path_type = String_t, required = True, trim = True\<rparr>,
         \<lparr>path = ''destination'', path_type = String_t, required = True, trim = True\<rparr>,
         \<lparr>path = ''startDate'', path_type = Date_t, required = True, trim = False\<rparr>,
         \<lparr>path = ''endDate'', path_type = Date_t, required = True, trim = False\<rparr>],
      document_arrays = [(''activities'', activitySchema)]\<rparr>"

text \<open>
  What Mongoose does with the schema is modelled for request bodies of this form: an
  object in which the value of a declared path is a string or \<^verbatim>\<open>null\<close> and
  \<^verbatim>\<open>activities\<close> is an array of such objects.  A date is written as the ISO 8601
  calendar date \<^verbatim>\<open>YYYY-MM-DD\<close> or as the date-time \<^verbatim>\<open>YYYY-MM-DDTHH:mm:ss.sssZ\<close>, an
  ObjectId as 24 hexadecimal digits.  Properties that are not paths of the schema are
  dropped (strict mode).  Not covered, and answered with an error here: values that
  Mongoose converts from another type (a number given for a string or for a date, a
  date in another format), bodies that name a generated property or a nested path
  (\<open>plain_name\<close>), and bodies that are not objects.

  The setter \<^verbatim>\<open>trim\<close> is \<^verbatim>\<open>String.prototype.trim\<close>: it removes the white space and
  line terminators of ECMAScript, here in their UTF-8 encoding, from both ends.
\<close>

definition white_space :: "string list" where
  "white_space =
     [[CHR 0x09], [CHR 0x0A], [CHR 0x0B], [CHR 0x0C], [CHR 0x0D], [CHR 0x20],
      [CHR 0xC2, CHR 0xA0], [CHR 0xE1, CHR 0x9A, CHR 0x80]]
     @ map (\<lambda>n. [CHR 0xE2, CHR 0x80, char_of n]) [0x80 ..< 0x8B::nat]
     @ [[CHR 0xE2, CHR 0x80, CHR 0xA8], [CHR 0xE2, CHR 0x80, CHR 0xA9], [CHR 0xE2, CHR 0x80, CHR 0xAF],
        [CHR 0xE2, CHR 0x81, CHR 0x9F], [CHR 0xE3, CHR 0x80, CHR 0x80], [CHR 0xEF, CHR 0xBB, CHR 0xBF]]"

function trimStart :: "string \<Rightarrow> string" where
  "trimStart s =
     (case find (\<lambda>w. prefix w s) white_space of
        None \<Rightarrow> s
      | Some w \<Rightarrow> trimStart (drop (length w) s))"
  by pat_completeness auto

termination trimStart
proof (relation "measure length")
  show "wf (measure length)"
    by simp
next
  fix s w
  assume "find (\<lambda>w. prefix w s) white_space = Some w"
  then have "w \<in> set white_space" and "prefix w s"
    by (auto simp: find_Some_iff)
  then have "w \<noteq> []" and "length w \<le> length s"
    by (auto simp: white_space_def prefix_length_le)
  then show "(drop (length w) s, s) \<in> measure length"
    by (cases w) auto
qed

function trimEnd :: "string \<Rightarrow> string" where
  "trimEnd s =
     (case find (\<lambda>w. suffix w s) white_space of
        None \<Rightarrow> s
      | Some w \<Rightarrow> trimEnd (take (length s - length w) s))"
  by pat_completeness auto

termination trimEnd
proof (relation "measure length")
  show "wf (measure length)"
    by simp
next
  fix s w
  assume "find (\<lambda>w. suffix w s) white_space = Some w"
  then have "w \<in> set white_space" and "suffix w s"
    by (auto simp: find_Some_iff)
  then have "w \<noteq> []" and "length w \<le> length s"
    by (auto simp: white_space_def suffix_length_le)
  then show "(take (length s - length w) s, s) \<in> measure length"
    by (cases w) auto
qed

declare trimStart.simps [simp del] trimEnd.simps [simp del]

definition String_trim :: "string \<Rightarrow> string" where
  "String_trim s = trimEnd (trimStart s)"

text \<open>
  A date on a day of the calendar (leap years of the Gregorian calendar) is cast to a
  \<^verbatim>\<open>Date\<close>, which is printed by \<^verbatim>\<open>toISOString\<close>; a calendar date without a time is
  midnight UTC.
\<close>

definition number :: "string \<Rightarrow> nat option" where
  "number s =
     (if s \<noteq> [] \<and> list_all (\<lambda>c. 48 \<le> (of_char c :: nat) \<and> (of_char c :: nat) \<le> 57) s
      then Some (foldl (\<lambda>n c. 10 * n + (of_char c - 48)) 0 s)
      else None)"

definition days_in_month :: "nat \<Rightarrow> nat \<Rightarrow> nat" where
  "days_in_month y m =
     (if m = 2 then (if y mod 4 = 0 \<and> (y mod 100 \<noteq> 0 \<or> y mod 400 = 0) then 29 else 28)
      else if m \<in> {4, 6, 9, 11} then 30 else 31)"

definition calendar_date :: "string \<Rightarrow> bool" where
  "calendar_date s =
     (length s = 10 \<and> s ! 4 = CHR ''-'' \<and> s ! 7 = CHR ''-'' \<and>
      (case (number (take 4 s), number (take 2 (drop 5 s)), number (drop 8 s)) of
         (Some y, Some m, Some d) \<Rightarrow> 1 \<le> m \<and> m \<le> 12 \<and> 1 \<le> d \<and> d \<le> days_in_month y m
       | _ \<Rightarrow> False))"

definition time_of_day :: "string \<Rightarrow> bool" where
  "time_of_day s =
     (length s = 14 \<and> s ! 0 = CHR ''T'' \<and> s ! 3 = CHR '':'' \<and> s ! 6 = CHR '':''
      \<and> s ! 9 = CHR ''.'' \<and> s ! 13 = CHR ''Z'' \<and>
      (case (number (take 2 (drop 1 s)), number (take 2 (drop 4 s)), number (take 2 (drop 7 s)),
             number (take 3 (drop 10 s))) of
         (Some h, Some m, Some sec, Some ms) \<Rightarrow> h < 24 \<and> m < 60 \<and> sec < 60
       | _ \<Rightarrow> False))"

definition castDate :: "string \<Rightarrow> string option" where
  "castDate s =
     (if calendar_date s then Some (s @ ''T00:00:00.000Z'')
      else if calendar_date (take 10 s) \<and> time_of_day (drop 10 s) then Some s
      else None)"

definition hex_value :: "char \<Rightarrow> nat option" where
  "hex_value c =
     (let n = of_char c :: nat
      in if 48 \<le> n \<and> n \<le> 57 then Some (n - 48)
         else if 97 \<le> n \<and> n \<le> 102 then Some (n - 87)
         else if 65 \<le> n \<and> n \<le> 70 then Some (n - 55)
         else None)"

definition castObjectId :: "string \<Rightarrow> objectid option" where
  "castObjectId s =
     (if length s = 24 \<and> list_all (\<lambda>c. hex_value c \<noteq> None) s
      then Some (ObjectId (foldl (\<lambda>w c. 16 * w + of_nat (the (hex_value c))) 0 s))
      else None)"

text \<open>
  The cast of one value to the type of its path: \<^verbatim>\<open>null\<close> stays, as does the empty
  string for a date; an ObjectId is written with lower-case digits.
\<close>

definition cast_value :: "schema_path \<Rightarrow> jsval \<Rightarrow> js_error + jsval" where
  "cast_value p v =
     (case v of
        JNull \<Rightarrow> Inr JNull
      | JStr s \<Rightarrow>
          (case path_type p of
             String_t \<Rightarrow> Inr (JStr (if trim p then String_trim s else s))
           | Date_t \<Rightarrow>
               (if s = [] then Inr JNull
                else (case castDate s of Some d \<Rightarrow> Inr (JStr d) | None \<Rightarrow> Inl CastError))
           | ObjectId_t \<Rightarrow>
               (case castObjectId s of Some i \<Rightarrow> Inr (JStr (toHexString i)) | None \<Rightarrow> Inl CastError))
      | _ \<Rightarrow> Inl CastError)"

definition plain_name :: "string \<Rightarrow> bool" where
  "plain_name k =
     (k \<notin> set [''_id'', ''id'', ''__v'', ''createdAt'', ''updatedAt'']
      \<and> CHR ''.'' \<notin> set k \<and> CHR ''$'' \<notin> set k)"

text \<open>
  The properties of a body are cast in the order of the body; the first value that
  cannot be cast ends the cast with a \<^verbatim>\<open>CastError\<close>.
\<close>

fun cast_all :: "('a \<Rightarrow> js_error + 'b) \<Rightarrow> 'a list \<Rightarrow> js_error + 'b list" where
  "cast_all f [] = Inr []"
| "cast_all f (x # xs) =
     (case f x of
        Inl e \<Rightarrow> Inl e
      | Inr y \<Rightarrow> (case cast_all f xs of Inl e \<Rightarrow> Inl e | Inr ys \<Rightarrow> Inr (y # ys)))"

fun cast_paths :: "schema_path list \<Rightarrow> (string \<times> jsval) list \<Rightarrow> js_error + (string \<times> jsval) list" where
  "cast_paths ps [] = Inr []"
| "cast_paths ps ((k, v) # fs) =
     (case find (\<lambda>p. path p = k) ps of
        None \<Rightarrow> cast_paths ps fs
      | Some p \<Rightarrow>
          (case cast_value p v of
             Inl e \<Rightarrow> Inl e
           | Inr v1 \<Rightarrow> (case cast_paths ps fs of Inl e \<Rightarrow> Inl e | Inr rest \<Rightarrow> Inr ((k, v1) # rest))))"

definition cast_subdocument :: "schema_path list \<Rightarrow> jsval \<Rightarrow> js_error + jsval" where
  "cast_subdocument ps v =
     (case v of
        JObj fs \<Rightarrow>
          (if list_all plain_name (map fst fs)
           then (case cast_paths ps fs of Inl e \<Rightarrow> Inl e | Inr gs \<Rightarrow> Inr (JObj gs))
           else Inl CastError)
      | _ \<Rightarrow> Inl CastError)"

fun cast_arrays ::
  "(string \<times> schema_path list) list \<Rightarrow> (string \<times> jsval) list \<Rightarrow> js_error + (string \<times> jsval) list" where
  "cast_arrays as [] = Inr []"
| "cast_arrays as ((k, v) # fs) =
     (case map_of as k of
        None \<Rightarrow> cast_arrays as fs
      | Some ps \<Rightarrow>
          (case v of
             JArr xs \<Rightarrow>
               (case cast_all (cast_subdocument ps) xs of
                  Inl e \<Rightarrow> Inl e
                | Inr ys \<Rightarrow>
                    (case cast_arrays as fs of Inl e \<Rightarrow> Inl e | Inr rest \<Rightarrow> Inr ((k, JArr ys) # rest)))
           | _ \<Rightarrow> Inl CastError))"

text \<open>
  A required path fails validation when its value is \<^verbatim>\<open>null\<close> or the empty string
  and, in a new document or subdocument (\<open>isNew\<close>), when it is absent; in an update
  only the paths that the body sets are validated.
\<close>

definition checkRequired :: "jsval \<Rightarrow> bool" where
  "checkRequired v = (v \<noteq> JNull \<and> v \<noteq> JStr [])"

definition validate_paths :: "schema_path list \<Rightarrow> bool \<Rightarrow> (string \<times> jsval) list \<Rightarrow> bool" where
  "validate_paths ps isNew fs =
     list_all (\<lambda>p. case map_of fs (path p) of None \<Rightarrow> \<not> isNew | Some v \<Rightarrow> checkRequired v)
       (filter required ps)"

definition validate_arrays :: "(string \<times> schema_path list) list \<Rightarrow> (string \<times> jsval) list \<Rightarrow> bool" where
  "validate_arrays as fs =
     list_all (\<lambda>(k, ps). case map_of fs k of
                            Some (JArr xs) \<Rightarrow>
                              list_all (\<lambda>x. case x of JObj gs \<Rightarrow> validate_paths ps True gs | _ \<Rightarrow> False) xs
                          | _ \<Rightarrow> True) as"

text \<open>
  \<^verbatim>\<open>Itinerary.create(req.body)\<close> casts and validates the whole document and reports
  every failure as a \<^verbatim>\<open>ValidationError\<close>; an absent array of subdocuments is empty.
  The handler has put the id of the requesting user under \<^verbatim>\<open>userId\<close> before the call,
  so that this path is always valid there; the document keeps it in its field
  \<open>userId\<close>.  \<^verbatim>\<open>findByIdAndUpdate(id, req.body, { new: true, runValidators: true })\<close>
  casts the properties of the body, then validates the paths that the body sets, and
  sets them in the document; a body that sets \<^verbatim>\<open>userId\<close> changes the owner.
\<close>

definition mongoose_model :: "schema_decl \<Rightarrow> schema" where
  "mongoose_model decl =
     \<lparr>cast_create = (\<lambda>b.
        case b of
          JObj fs \<Rightarrow>
            (if list_all plain_name (map fst fs)
             then (case (cast_paths (filter (\<lambda>p. path p \<noteq> ''userId'') (paths decl)) fs,
                         cast_arrays (document_arrays decl) fs) of
                     (Inr gs, Inr as) \<Rightarrow>
                       (if validate_paths (filter (\<lambda>p. path p \<noteq> ''userId'') (paths decl)) True gs
                           \<and> validate_arrays (document_arrays decl) as
                        then Inr (gs @ as
                                  @ map (\<lambda>(k, ps). (k, JArr []))
                                      (filter (\<lambda>(k, ps). map_of as k = None) (document_arrays decl)))
                        else Inl ValidationError)
                   | _ \<Rightarrow> Inl ValidationError)
             else Inl ValidationError)
        | _ \<Rightarrow> Inl ValidationError),
      cast_update = (\<lambda>d b.
        case b of
          JObj fs \<Rightarrow>
            (if list_all plain_name (map fst fs)
             then (case (cast_paths (paths decl) fs, cast_arrays (document_arrays decl) fs) of
                     (Inr gs, Inr as) \<Rightarrow>
                       (if validate_paths (paths decl) False gs \<and> validate_arrays (document_arrays decl) as
                        then Inr (d\<lparr>userId :=
                                      (case map_of gs ''userId'' of
                                         Some (JStr h) \<Rightarrow> (case castObjectId h of Some i \<Rightarrow> i | None \<Rightarrow> userId d)
                                       | _ \<Rightarrow> userId d),
                                    props :=
                                      foldl (\<lambda>acc kv. AList.update (fst kv) (snd kv) acc) (props d)
                                        (filter (\<lambda>kv. fst kv \<noteq> ''userId'') gs @ as)\<rparr>)
                        else Inl ValidationError)
                   | _ \<Rightarrow> Inl CastError)
             else Inl CastError)
        | _ \<Rightarrow> Inl CastError)\<rparr>"

text \<open>\<^verbatim>\<open>mongoose.model('Itinerary', itinerarySchema)\<close>\<close>

definition Itinerary :: schema where
  "Itinerary = mongoose_model itinerarySchema"

section \<open>The itinerary controller\<close>

text \<open>
  A handler ends with a JSON response (status and body) or hands an exception to
  \<^verbatim>\<open>next\<close>.  The request carries the authenticated user \<^verbatim>\<open>req.user._id\<close>, the
  route parameter \<^verbatim>\<open>req.params.id\<close> and the body.
\<close>

datatype response = Json nat jsval | Next js_error

record request =
  req_user :: objectid
  params_id :: objectid
  body :: jsval

definition on_cache :: "(cache_state, 'a) io \<Rightarrow> (world, 'a) io" where
  "on_cache m w = (case m (cache_st w) of (r, c) \<Rightarrow> (r, w\<lparr>cache_st := c\<rparr>))"

text \<open>\<^verbatim>\<open>try { ... } catch (error) { next(error); }\<close>\<close>

definition handler :: "(world, response) io \<Rightarrow> world \<Rightarrow> response \<times> world" where
  "handler h w = (case h w of (Inl e, w1) \<Rightarrow> (Next e, w1) | (Inr r, w1) \<Rightarrow> (r, w1))"

definition status_of :: "response \<Rightarrow> nat option" where
  "status_of r = (case r of Json status b \<Rightarrow> Some status | Next e \<Rightarrow> None)"

definition failure :: "string \<Rightarrow> jsval" where
  "failure msg = JObj [(''success'', JBool False), (''message'', JStr msg)]"

text \<open>
  \<^verbatim>\<open>getItinerary\<close> compares the string of the populated owner with the string of the
  requesting user's id.  What Mongoose gives as the string of a populated document
  is the parameter \<open>owner_string\<close> (\<^verbatim>\<open>controllers/itineraryController.js\<close> reads
  \<^verbatim>\<open>userId._id.toString()\<close> at this place, the owner's hexadecimal id); on a
  \<^verbatim>\<open>null\<close> owner the access throws a TypeError.
\<close>

definition getItinerary :: "(user \<Rightarrow> string) \<Rightarrow> request \<Rightarrow> world \<Rightarrow> response \<times> world" where
  "getItinerary owner_string req =
     handler
       (await (findById (params_id req))
          (\<lambda>found.
             case found of
               None \<Rightarrow> return (Json 404 (failure ''Itinerary not found''))
             | Some d \<Rightarrow>
                 await (populate d)
                   (\<lambda>itinerary.
                      case owner itinerary of
                        None \<Rightarrow> throw TypeError
                      | Some u \<Rightarrow>
                          if owner_string u \<noteq> toHexString (req_user req)
                          then return (Json 403 (failure ''Not authorized to access this itinerary''))
                          else await (on_cache (cacheItinerary (toHexString (itinerary_id (doc itinerary)))
                                                  (toJSON itinerary)))
                                 (\<lambda>_. return (Json 200 (JObj [(''success'', JBool True),
                                                              (''itinerary'', toJSON itinerary)]))))))"

definition createItinerary :: "schema \<Rightarrow> request \<Rightarrow> world \<Rightarrow> response \<times> world" where
  "createItinerary sch req =
     handler
       (await (create sch (req_user req) (body req))
          (\<lambda>d. await (populate d)
             (\<lambda>itinerary.
                await (on_cache (invalidateUserItineraryCaches (toHexString (req_user req))))
                  (\<lambda>_. return (Json 201 (JObj [(''success'', JBool True),
                                               (''itinerary'', toJSON itinerary)]))))))"

definition updateItinerary :: "schema \<Rightarrow> request \<Rightarrow> world \<Rightarrow> response \<times> world" where
  "updateItinerary sch req =
     handler
       (await (findById (params_id req))
          (\<lambda>found.
             case found of
               None \<Rightarrow> return (Json 404 (failure ''Itinerary not found''))
             | Some d \<Rightarrow>
                 if toHexString (userId d) \<noteq> toHexString (req_user req)
                 then return (Json 403 (failure ''Not authorized to update this itinerary''))
                 else await (findByIdAndUpdate sch (params_id req) (body req))
                        (\<lambda>updated.
                           case updated of
                             None \<Rightarrow> throw TypeError
                           | Some d1 \<Rightarrow>
                               await (populate d1)
                                 (\<lambda>itinerary.
                                    await (on_cache (invalidateItineraryCache
                                                       (toHexString (itinerary_id (doc itinerary)))))
                                      (\<lambda>_. await (on_cache (invalidateUserItineraryCaches
                                                              (toHexString (req_user req))))
                                         (\<lambda>_. return (Json 200 (JObj [(''success'', JBool True),
                                                                      (''itinerary'', toJSON itinerary)]))))))))"

definition deleteItinerary :: "request \<Rightarrow> world \<Rightarrow> response \<times> world" where
  "deleteItinerary req =
     handler
       (await (findById (params_id req))
          (\<lambda>found.
             case found of
               None \<Rightarrow> return (Json 404 (failure ''Itinerary not found''))
             | Some d \<Rightarrow>
                 if toHexString (userId d) \<noteq> toHexString (req_user req)
                 then return (Json 403 (failure ''Not authorized to delete this itinerary''))
                 else await (findByIdAndDelete (params_id req))
                        (\<lambda>_. await (on_cache (invalidateItineraryCache (toHexString (itinerary_id d))))
                           (\<lambda>_. await (on_cache (invalidateUserItineraryCaches
                                                   (toHexString (req_user req))))
                              (\<lambda>_. return (Json 200 (JObj [(''success'', JBool True),
                                                           (''message'', JStr ''Itinerary deleted successfully'')])))))))"

section \<open>States used in the examples\<close>

definition idle_server :: server where
  "idle_server = \<lparr>kv = [], calls = [], faulty = (\<lambda>n. False)\<rparr>"

definition no_client :: cache_state where
  "no_client = \<lparr>redisClient = None, redis = idle_server\<rparr>"

definition connected :: "server \<Rightarrow> cache_state" where
  "connected sv = \<lparr>redisClient = Some Client, redis = sv\<rparr>"

definition down_server :: server where
  "down_server = \<lparr>kv = [(''user:42'', 3600, ''7'')], calls = [], faulty = (\<lambda>n. True)\<rparr>"

definition corrupt_server :: server where
  "corrupt_server = \<lparr>kv = [(''user:42'', 3600, ''{bad'')], calls = [], faulty = (\<lambda>n. False)\<rparr>"

definition sample_user :: jsval where
  "sample_user = JObj [(''name'', JStr ''Ann''), (''age'', JNum 41), (''tags'', JArr [JBool True, JNull])]"

definition filters_a :: jsval where
  "filters_a = JObj [(''page'', JNum 1), (''limit'', JNum 10), (''sort'', JStr ''-createdAt'')]"

definition filters_b :: jsval where
  "filters_b = JObj [(''sort'', JStr ''-createdAt''), (''limit'', JNum 10), (''page'', JNum 1)]"

definition two_scopes :: server where
  "two_scopes =
     \<lparr>kv = [(''itineraries:a[b]:e30='', 600, ''1''), (''itineraries:ab:e30='', 600, ''2'')],
      calls = [], faulty = (\<lambda>n. False)\<rparr>"

definition spec_scopes :: server where
  "spec_scopes =
     \<lparr>kv = [(''itineraries:user:42:e30='', 600, ''1''),
            (''itineraries:user:42:eyJwYWdlIjoxfQ=='', 600, ''2''),
            (''itineraries:user:43:e30='', 600, ''3''),
            (''itineraries:user:42:eyJwYWdlIjoyfQ=='', 600, ''4''),
            (''public_itineraries:e30='', 300, ''5'')],
      calls = [], faulty = (\<lambda>n. False)\<rparr>"

text \<open>
  A user, her itinerary, and a world in which the itinerary, the user's list and a
  public list are cached; a request of the user that renames the itinerary, and one
  that creates an itinerary with every required path.
\<close>

definition ann :: user where
  "ann = \<lparr>user_id = ObjectId 0xA1, user_name = ''Ann'', user_email = ''ann@example.com''\<rparr>"

definition trip :: itinerary where
  "trip = \<lparr>itinerary_id = ObjectId 0xE1, userId = ObjectId 0xA1,
            props = [(''title'', JStr ''Paris Trip''), (''destination'', JStr ''France''),
                     (''startDate'', JStr ''2025-05-01T00:00:00.000Z''),
                     (''endDate'', JStr ''2025-05-07T00:00:00.000Z''),
                     (''activities'', JArr [])]\<rparr>"

definition cached_world :: world where
  "cached_world =
     \<lparr>cache_st = connected
        \<lparr>kv = [(''itinerary:0000000000000000000000e1'', 1800, ''{}''),
               (''itineraries:0000000000000000000000a1:e30='', 600, ''[]''),
               (''public_itineraries:e30='', 300, ''[]'')],
         calls = [], faulty = (\<lambda>n. False)\<rparr>,
      itineraries = [trip], users = [ann], next_id = 0xE2, db_up = True\<rparr>"

definition ann_request :: "jsval \<Rightarrow> request" where
  "ann_request b = \<lparr>req_user = ObjectId 0xA1, params_id = ObjectId 0xE1, body = b\<rparr>"

definition rename_request :: request where
  "rename_request = ann_request (JObj [(''title'', JStr ''Rome'')])"

definition create_request :: request where
  "create_request =
     ann_request (JObj [(''title'', JStr ''Rome''), (''destination'', JStr ''Italy''),
                        (''startDate'', JStr ''2025-06-01''), (''endDate'', JStr ''2025-06-10'')])"

text \<open>The owner string as \<^verbatim>\<open>controllers/itineraryController.js\<close> reads it
  (\<^verbatim>\<open>itinerary.userId._id.toString()\<close>).\<close>

definition owner_id_string :: "user \<Rightarrow> string" where
  "owner_id_string u = toHexString (user_id u)"

section \<open>Properties of the cache operations\<close>

lemmas io_defs = return_def result_def throw_def await_def try_catch_def on_client_def parse_or_null_def

lemmas op_defs = cacheUser_def getCachedUser_def invalidateUserCache_def
  cacheItinerary_def getCachedItinerary_def invalidateItineraryCache_def
  cacheItineraryList_def getCachedItineraryList_def invalidateUserItineraryCaches_def
  cachePublicItineraries_def getCachedPublicItineraries_def invalidatePublicItineraryCaches_def
  cache_def getCache_def deleteCache_def

subsection \<open>Without a client\<close>

text \<open>
  Claim C5.  When \<^verbatim>\<open>redisClient\<close> is \<^verbatim>\<open>null\<close>, every exported cache operation
  returns at once: the five read operations return \<^verbatim>\<open>null\<close>, the write and delete
  operations return normally, and the state is the one before the call, so that no
  command was sent to the server and no exception was raised.
\<close>

theorem absent_client_noop:
  assumes "redisClient st = None"
  shows "cacheUser u d st = (Inr (), st) \<and> getCachedUser u st = (Inr JNull, st)
       \<and> invalidateUserCache u st = (Inr (), st)
       \<and> cacheItinerary i d st = (Inr (), st) \<and> getCachedItinerary i st = (Inr JNull, st)
       \<and> invalidateItineraryCache i st = (Inr (), st)
       \<and> cacheItineraryList u f d st = (Inr (), st)
       \<and> getCachedItineraryList u f st = (Inr JNull, st)
       \<and> invalidateUserItineraryCaches u st = (Inr (), st)
       \<and> cachePublicItineraries f d st = (Inr (), st)
       \<and> getCachedPublicItineraries f st = (Inr JNull, st)
       \<and> invalidatePublicItineraryCaches st = (Inr (), st)
       \<and> cache k d ttl st = (Inr (), st) \<and> getCache k st = (Inr JNull, st)
       \<and> deleteCache k st = (Inr (), st)"
  using assms by (simp add: op_defs)

theorem absent_client_noop_witness:
  "redisClient no_client = None
   \<and> cacheUser ''42'' (JStr ''ann'') no_client = (Inr (), no_client)
   \<and> getCachedUser ''42'' no_client = (Inr JNull, no_client)
   \<and> invalidateUserItineraryCaches ''42'' no_client = (Inr (), no_client)
   \<and> getCache ''k'' no_client = (Inr JNull, no_client)
   \<and> deleteCache ''k'' no_client = (Inr (), no_client)"
proof -
  have h: "redisClient no_client = None"
    by (simp add: no_client_def)
  show ?thesis
    using h absent_client_noop [OF h, of "''42''" "JStr ''ann''" "''42''" JNull "''k''" None]
    by simp
qed

subsection \<open>What the operations return and how they change the state\<close>

lemma try_catch_return_total: "\<not> isl (fst (try_catch m (\<lambda>e. return d) s))"
  by (simp add: try_catch_def return_def split: prod.splits sum.splits)

lemma get_chain_result:
  "fst (try_catch (await (on_client (client_get k)) parse_or_null) (\<lambda>e. return JNull) st) =
     Inr (if fails_now (redis st) then JNull
          else (case map_of (kv (redis st)) k of
                  None \<Rightarrow> JNull
                | Some e \<Rightarrow> (case JSON_parse (snd e) of Inl x \<Rightarrow> JNull | Inr v \<Rightarrow> v)))"
  by (auto simp: io_defs client_get_def JSON_parse_def split: option.splits sum.splits)

lemma get_chain_state:
  "snd (try_catch (await (on_client (client_get k)) parse_or_null) (\<lambda>e. return JNull) st) =
     st\<lparr>redis := issue (GET k) (redis st)\<rparr>"
  by (simp add: io_defs client_get_def split: option.splits sum.splits)

lemma set_chain_state:
  "\<not> has_bigint d \<Longrightarrow>
   snd (try_catch (await (result (JSON_stringify d)) (\<lambda>data. on_client (client_setEx k ttl data)))
          (\<lambda>e. return ()) st) =
     st\<lparr>redis := (if fails_now (redis st) \<or> ttl = 0 then issue (SETEX k ttl (ser d)) (redis st)
                   else (issue (SETEX k ttl (ser d)) (redis st))
                          \<lparr>kv := AList.update k (ttl, ser d) (kv (redis st))\<rparr>)\<rparr>"
  by (simp add: io_defs client_setEx_def JSON_stringify_def)

lemma list_get_chain_result:
  "fst (try_catch (await (result (JSON_stringify f))
                     (\<lambda>filterKey. await (on_client (client_get (pre @ base64 filterKey))) parse_or_null))
          (\<lambda>e. return JNull) st) =
     Inr (if has_bigint f \<or> fails_now (redis st) then JNull
          else (case map_of (kv (redis st)) (pre @ base64 (ser f)) of
                  None \<Rightarrow> JNull
                | Some e \<Rightarrow> (case JSON_parse (snd e) of Inl x \<Rightarrow> JNull | Inr v \<Rightarrow> v)))"
  by (auto simp: io_defs client_get_def JSON_parse_def JSON_stringify_def split: option.splits sum.splits)

lemma list_get_chain_state:
  "snd (try_catch (await (result (JSON_stringify f))
                     (\<lambda>filterKey. await (on_client (client_get (pre @ base64 filterKey))) parse_or_null))
          (\<lambda>e. return JNull) st) =
     (if has_bigint f then st else st\<lparr>redis := issue (GET (pre @ base64 (ser f))) (redis st)\<rparr>)"
  by (simp add: io_defs client_get_def JSON_stringify_def split: option.splits sum.splits)

lemma list_set_chain_state:
  "\<not> has_bigint f \<Longrightarrow> \<not> has_bigint d \<Longrightarrow>
   snd (try_catch (await (result (JSON_stringify f))
                     (\<lambda>filterKey. await (result (JSON_stringify d))
                        (\<lambda>cacheData. on_client (client_setEx (pre @ base64 filterKey) ttl cacheData))))
          (\<lambda>e. return ()) st) =
     st\<lparr>redis := (if fails_now (redis st) \<or> ttl = 0
                   then issue (SETEX (pre @ base64 (ser f)) ttl (ser d)) (redis st)
                   else (issue (SETEX (pre @ base64 (ser f)) ttl (ser d)) (redis st))
                          \<lparr>kv := AList.update (pre @ base64 (ser f)) (ttl, ser d) (kv (redis st))\<rparr>)\<rparr>"
  by (simp add: io_defs client_setEx_def JSON_stringify_def)

lemma getCachedUser_result:
  "fst (getCachedUser u st) =
     Inr (if redisClient st = None \<or> fails_now (redis st) then JNull
          else (case map_of (kv (redis st)) (''user:'' @ u) of
                  None \<Rightarrow> JNull
                | Some e \<Rightarrow> (case JSON_parse (snd e) of Inl x \<Rightarrow> JNull | Inr v \<Rightarrow> v)))"
  by (simp add: getCachedUser_def get_chain_result)

lemma getCachedItinerary_result:
  "fst (getCachedItinerary i st) =
     Inr (if redisClient st = None \<or> fails_now (redis st) then JNull
          else (case map_of (kv (redis st)) (''itinerary:'' @ i) of
                  None \<Rightarrow> JNull
                | Some e \<Rightarrow> (case JSON_parse (snd e) of Inl x \<Rightarrow> JNull | Inr v \<Rightarrow> v)))"
  by (simp add: getCachedItinerary_def get_chain_result)

lemma getCache_result:
  "fst (getCache k st) =
     Inr (if redisClient st = None \<or> fails_now (redis st) then JNull
          else (case map_of (kv (redis st)) k of
                  None \<Rightarrow> JNull
                | Some e \<Rightarrow> (case JSON_parse (snd e) of Inl x \<Rightarrow> JNull | Inr v \<Rightarrow> v)))"
  by (simp add: getCache_def get_chain_result)

lemma getCachedItineraryList_result:
  "fst (getCachedItineraryList u f st) =
     Inr (if redisClient st = None \<or> has_bigint f \<or> fails_now (redis st) then JNull
          else (case map_of (kv (redis st)) (''itineraries:'' @ u @ '':'' @ base64 (ser f)) of
                  None \<Rightarrow> JNull
                | Some e \<Rightarrow> (case JSON_parse (snd e) of Inl x \<Rightarrow> JNull | Inr v \<Rightarrow> v)))"
  using list_get_chain_result [of f "''itineraries:'' @ u @ '':''" st]
  by (simp add: getCachedItineraryList_def)

lemma getCachedPublicItineraries_result:
  "fst (getCachedPublicItineraries f st) =
     Inr (if redisClient st = None \<or> has_bigint f \<or> fails_now (redis st) then JNull
          else (case map_of (kv (redis st)) (''public_itineraries:'' @ base64 (ser f)) of
                  None \<Rightarrow> JNull
                | Some e \<Rightarrow> (case JSON_parse (snd e) of Inl x \<Rightarrow> JNull | Inr v \<Rightarrow> v)))"
  using list_get_chain_result [of f "''public_itineraries:''" st]
  by (simp add: getCachedPublicItineraries_def)

lemma ops_total:
  "\<not> isl (fst (cacheUser u d st))" "\<not> isl (fst (getCachedUser u st))"
  "\<not> isl (fst (invalidateUserCache u st))"
  "\<not> isl (fst (cacheItinerary i d st))" "\<not> isl (fst (getCachedItinerary i st))"
  "\<not> isl (fst (invalidateItineraryCache i st))"
  "\<not> isl (fst (cacheItineraryList u f d st))" "\<not> isl (fst (getCachedItineraryList u f st))"
  "\<not> isl (fst (invalidateUserItineraryCaches u st))"
  "\<not> isl (fst (cachePublicItineraries f d st))" "\<not> isl (fst (getCachedPublicItineraries f st))"
  "\<not> isl (fst (invalidatePublicItineraryCaches st))"
  "\<not> isl (fst (cache k d ttl st))" "\<not> isl (fst (getCache k st))"
  "\<not> isl (fst (deleteCache k st))"
  by (simp_all add: op_defs try_catch_return_total)


subsection \<open>Errors stay inside the operations\<close>

text \<open>
  Claim C6.  No exception leaves a cache operation, whatever the state and the
  arguments: every one of the fifteen operations returns normally.  A read operation
  returns \<^verbatim>\<open>null\<close> when the call to the client fails, when the stored payload does
  not parse (so a malformed payload reads as a miss), and when the filters cannot be
  serialised; a write operation whose data cannot be serialised returns normally and
  changes nothing.
\<close>

theorem cache_errors_never_propagate:
  "\<not> isl (fst (cacheUser u d st)) \<and> \<not> isl (fst (getCachedUser u st))
   \<and> \<not> isl (fst (invalidateUserCache u st))
   \<and> \<not> isl (fst (cacheItinerary i d st)) \<and> \<not> isl (fst (getCachedItinerary i st))
   \<and> \<not> isl (fst (invalidateItineraryCache i st))
   \<and> \<not> isl (fst (cacheItineraryList u f d st)) \<and> \<not> isl (fst (getCachedItineraryList u f st))
   \<and> \<not> isl (fst (invalidateUserItineraryCaches u st))
   \<and> \<not> isl (fst (cachePublicItineraries f d st)) \<and> \<not> isl (fst (getCachedPublicItineraries f st))
   \<and> \<not> isl (fst (invalidatePublicItineraryCaches st))
   \<and> \<not> isl (fst (cache k d ttl st)) \<and> \<not> isl (fst (getCache k st))
   \<and> \<not> isl (fst (deleteCache k st))
   \<and> (fails_now (redis st) \<longrightarrow>
        fst (getCachedUser u st) = Inr JNull \<and> fst (getCachedItinerary i st) = Inr JNull
        \<and> fst (getCachedItineraryList u f st) = Inr JNull
        \<and> fst (getCachedPublicItineraries f st) = Inr JNull
        \<and> fst (getCache k st) = Inr JNull)
   \<and> (map_of (kv (redis st)) (''user:'' @ u) = Some (t, p) \<and> isl (JSON_parse p) \<longrightarrow>
        fst (getCachedUser u st) = Inr JNull)
   \<and> (map_of (kv (redis st)) (''itinerary:'' @ i) = Some (t, p) \<and> isl (JSON_parse p) \<longrightarrow>
        fst (getCachedItinerary i st) = Inr JNull)
   \<and> (map_of (kv (redis st)) (''itineraries:'' @ u @ '':'' @ base64 (ser f)) = Some (t, p)
        \<and> isl (JSON_parse p) \<longrightarrow>
        fst (getCachedItineraryList u f st) = Inr JNull)
   \<and> (map_of (kv (redis st)) (''public_itineraries:'' @ base64 (ser f)) = Some (t, p)
        \<and> isl (JSON_parse p) \<longrightarrow>
        fst (getCachedPublicItineraries f st) = Inr JNull)
   \<and> (map_of (kv (redis st)) k = Some (t, p) \<and> isl (JSON_parse p) \<longrightarrow>
        fst (getCache k st) = Inr JNull)
   \<and> (has_bigint f \<longrightarrow>
        fst (getCachedItineraryList u f st) = Inr JNull
        \<and> fst (getCachedPublicItineraries f st) = Inr JNull)
   \<and> (has_bigint d \<longrightarrow>
        cacheUser u d st = (Inr (), st) \<and> cacheItinerary i d st = (Inr (), st)
        \<and> cacheItineraryList u f d st = (Inr (), st)
        \<and> cachePublicItineraries f d st = (Inr (), st) \<and> cache k d ttl st = (Inr (), st))"
proof -
  have total: "\<not> isl (fst (cacheUser u d st)) \<and> \<not> isl (fst (getCachedUser u st))
   \<and> \<not> isl (fst (invalidateUserCache u st))
   \<and> \<not> isl (fst (cacheItinerary i d st)) \<and> \<not> isl (fst (getCachedItinerary i st))
   \<and> \<not> isl (fst (invalidateItineraryCache i st))
   \<and> \<not> isl (fst (cacheItineraryList u f d st)) \<and> \<not> isl (fst (getCachedItineraryList u f st))
   \<and> \<not> isl (fst (invalidateUserItineraryCaches u st))
   \<and> \<not> isl (fst (cachePublicItineraries f d st)) \<and> \<not> isl (fst (getCachedPublicItineraries f st))
   \<and> \<not> isl (fst (invalidatePublicItineraryCaches st))
   \<and> \<not> isl (fst (cache k d ttl st)) \<and> \<not> isl (fst (getCache k st))
   \<and> \<not> isl (fst (deleteCache k st))"
    by (simp add: ops_total)
  have down: "fails_now (redis st) \<longrightarrow>
        fst (getCachedUser u st) = Inr JNull \<and> fst (getCachedItinerary i st) = Inr JNull
        \<and> fst (getCachedItineraryList u f st) = Inr JNull
        \<and> fst (getCachedPublicItineraries f st) = Inr JNull
        \<and> fst (getCache k st) = Inr JNull"
    by (simp add: getCachedUser_result getCachedItinerary_result getCachedItineraryList_result
        getCachedPublicItineraries_result getCache_result)
  have bad: "\<And>e. isl (JSON_parse p) \<Longrightarrow> (case JSON_parse p of Inl x \<Rightarrow> JNull | Inr v \<Rightarrow> v) = JNull"
    by (cases "JSON_parse p") simp_all
  have m1: "map_of (kv (redis st)) (''user:'' @ u) = Some (t, p) \<and> isl (JSON_parse p) \<longrightarrow>
        fst (getCachedUser u st) = Inr JNull"
    by (simp add: getCachedUser_result bad)
  have m2: "map_of (kv (redis st)) (''itinerary:'' @ i) = Some (t, p) \<and> isl (JSON_parse p) \<longrightarrow>
        fst (getCachedItinerary i st) = Inr JNull"
    by (simp add: getCachedItinerary_result bad)
  have m3: "map_of (kv (redis st)) (''itineraries:'' @ u @ '':'' @ base64 (ser f)) = Some (t, p)
        \<and> isl (JSON_parse p) \<longrightarrow> fst (getCachedItineraryList u f st) = Inr JNull"
    by (simp add: getCachedItineraryList_result bad)
  have m4: "map_of (kv (redis st)) (''public_itineraries:'' @ base64 (ser f)) = Some (t, p)
        \<and> isl (JSON_parse p) \<longrightarrow> fst (getCachedPublicItineraries f st) = Inr JNull"
    by (simp add: getCachedPublicItineraries_result bad)
  have m5: "map_of (kv (redis st)) k = Some (t, p) \<and> isl (JSON_parse p) \<longrightarrow>
        fst (getCache k st) = Inr JNull"
    by (simp add: getCache_result bad)
  have s1: "has_bigint f \<longrightarrow>
        fst (getCachedItineraryList u f st) = Inr JNull
        \<and> fst (getCachedPublicItineraries f st) = Inr JNull"
    by (simp add: getCachedItineraryList_result getCachedPublicItineraries_result)
  have s2: "has_bigint d \<longrightarrow>
        cacheUser u d st = (Inr (), st) \<and> cacheItinerary i d st = (Inr (), st)
        \<and> cacheItineraryList u f d st = (Inr (), st)
        \<and> cachePublicItineraries f d st = (Inr (), st) \<and> cache k d ttl st = (Inr (), st)"
    by (simp add: cacheUser_def cacheItinerary_def cacheItineraryList_def
        cachePublicItineraries_def cache_def io_defs JSON_stringify_def)
  from total down m1 m2 m3 m4 m5 s1 s2 show ?thesis
    by blast
qed

theorem cache_errors_never_propagate_witness:
  "fails_now (redis (connected down_server))
   \<and> fst (getCachedUser ''42'' (connected down_server)) = Inr JNull
   \<and> map_of (kv (redis (connected corrupt_server))) (''user:'' @ ''42'') = Some (3600, ''{bad'')
   \<and> isl (JSON_parse ''{bad'')
   \<and> fst (getCachedUser ''42'' (connected corrupt_server)) = Inr JNull
   \<and> has_bigint (JArr [JBigInt 1])
   \<and> fst (getCachedItineraryList ''42'' (JArr [JBigInt 1]) (connected corrupt_server)) = Inr JNull
   \<and> cacheUser ''42'' (JArr [JBigInt 1]) (connected corrupt_server) = (Inr (), connected corrupt_server)"
proof -
  have h1: "fails_now (redis (connected down_server))"
    by (simp add: fails_now_def connected_def down_server_def)
  have h2: "map_of (kv (redis (connected corrupt_server))) (''user:'' @ ''42'') = Some (3600, ''{bad'')"
    by (simp add: connected_def corrupt_server_def)
  have h3: "isl (JSON_parse ''{bad'')"
    by code_simp
  have h4: "has_bigint (JArr [JBigInt 1])"
    by simp
  show ?thesis
    using h1 h2 h3 h4
      cache_errors_never_propagate [of "''42''" "JArr [JBigInt 1]" "connected down_server"
        "''1''" "JArr [JBigInt 1]" "''k''" None 3600 "''{bad''"]
      cache_errors_never_propagate [of "''42''" "JArr [JBigInt 1]" "connected corrupt_server"
        "''1''" "JArr [JBigInt 1]" "''k''" None 3600 "''{bad''"]
    by simp
qed

lemma parse_null: "JSON_parse ''null'' = Inr JNull"
  by (simp add: JSON_parse_def skip_ws_def is_ws_def)

lemma calls_issue: "calls (issue c s) = calls s @ [c]"
  by (simp add: issue_def)

lemma kv_issue: "kv (issue c s) = kv s"
  by (simp add: issue_def)

subsection \<open>Key shapes and times to live\<close>

text \<open>
  Claim C9.  With a client present and serialisable arguments, each populating
  operation issues exactly one SETEX with the key of its namespace and the fixed time
  to live: \<^verbatim>\<open>user:<userId>\<close> with 3600 seconds, \<^verbatim>\<open>itinerary:<itineraryId>\<close> with 1800,
  \<^verbatim>\<open>itineraries:<userId>:<base64 of the JSON text of the filters>\<close> with 600 and
  \<^verbatim>\<open>public_itineraries:<base64 of the JSON text of the filters>\<close> with 300; when the
  call succeeds the entry is stored under that key with that time to live.  The read
  operations leave every stored entry, and so its time to live, as it was.
\<close>

theorem cache_keys_and_ttls:
  assumes "redisClient st \<noteq> None" and "\<not> has_bigint d" and "\<not> has_bigint f"
  shows "calls (redis (snd (cacheUser u d st))) = calls (redis st) @ [SETEX (''user:'' @ u) 3600 (ser d)]
       \<and> (\<not> fails_now (redis st) \<longrightarrow>
            kv (redis (snd (cacheUser u d st))) = AList.update (''user:'' @ u) (3600, ser d) (kv (redis st)))
       \<and> calls (redis (snd (cacheItinerary i d st))) =
            calls (redis st) @ [SETEX (''itinerary:'' @ i) 1800 (ser d)]
       \<and> (\<not> fails_now (redis st) \<longrightarrow>
            kv (redis (snd (cacheItinerary i d st))) =
              AList.update (''itinerary:'' @ i) (1800, ser d) (kv (redis st)))
       \<and> calls (redis (snd (cacheItineraryList u f d st))) =
            calls (redis st) @ [SETEX (''itineraries:'' @ u @ '':'' @ base64 (ser f)) 600 (ser d)]
       \<and> (\<not> fails_now (redis st) \<longrightarrow>
            kv (redis (snd (cacheItineraryList u f d st))) =
              AList.update (''itineraries:'' @ u @ '':'' @ base64 (ser f)) (600, ser d) (kv (redis st)))
       \<and> calls (redis (snd (cachePublicItineraries f d st))) =
            calls (redis st) @ [SETEX (''public_itineraries:'' @ base64 (ser f)) 300 (ser d)]
       \<and> (\<not> fails_now (redis st) \<longrightarrow>
            kv (redis (snd (cachePublicItineraries f d st))) =
              AList.update (''public_itineraries:'' @ base64 (ser f)) (300, ser d) (kv (redis st)))
       \<and> kv (redis (snd (getCachedUser u st))) = kv (redis st)
       \<and> kv (redis (snd (getCachedItinerary i st))) = kv (redis st)
       \<and> kv (redis (snd (getCachedItineraryList u f st))) = kv (redis st)
       \<and> kv (redis (snd (getCachedPublicItineraries f st))) = kv (redis st)
       \<and> kv (redis (snd (getCache k st))) = kv (redis st)"
proof -
  from assms obtain c where c: "redisClient st = Some c"
    by auto
  have w1: "snd (cacheUser u d st) = st\<lparr>redis := (if fails_now (redis st) \<or> (3600::nat) = 0
              then issue (SETEX (''user:'' @ u) 3600 (ser d)) (redis st)
              else (issue (SETEX (''user:'' @ u) 3600 (ser d)) (redis st))
                     \<lparr>kv := AList.update (''user:'' @ u) (3600, ser d) (kv (redis st))\<rparr>)\<rparr>"
    using c assms set_chain_state [of d "''user:'' @ u" 3600 st]
    by (simp add: cacheUser_def)
  have w2: "snd (cacheItinerary i d st) = st\<lparr>redis := (if fails_now (redis st) \<or> (1800::nat) = 0
              then issue (SETEX (''itinerary:'' @ i) 1800 (ser d)) (redis st)
              else (issue (SETEX (''itinerary:'' @ i) 1800 (ser d)) (redis st))
                     \<lparr>kv := AList.update (''itinerary:'' @ i) (1800, ser d) (kv (redis st))\<rparr>)\<rparr>"
    using c assms set_chain_state [of d "''itinerary:'' @ i" 1800 st]
    by (simp add: cacheItinerary_def)
  have w3: "snd (cacheItineraryList u f d st) = st\<lparr>redis := (if fails_now (redis st) \<or> (600::nat) = 0
              then issue (SETEX ((''itineraries:'' @ u @ '':'') @ base64 (ser f)) 600 (ser d)) (redis st)
              else (issue (SETEX ((''itineraries:'' @ u @ '':'') @ base64 (ser f)) 600 (ser d)) (redis st))
                     \<lparr>kv := AList.update ((''itineraries:'' @ u @ '':'') @ base64 (ser f)) (600, ser d)
                              (kv (redis st))\<rparr>)\<rparr>"
    using c assms list_set_chain_state [of f d "''itineraries:'' @ u @ '':''" 600 st]
    by (simp add: cacheItineraryList_def)
  have w4: "snd (cachePublicItineraries f d st) = st\<lparr>redis := (if fails_now (redis st) \<or> (300::nat) = 0
              then issue (SETEX (''public_itineraries:'' @ base64 (ser f)) 300 (ser d)) (redis st)
              else (issue (SETEX (''public_itineraries:'' @ base64 (ser f)) 300 (ser d)) (redis st))
                     \<lparr>kv := AList.update (''public_itineraries:'' @ base64 (ser f)) (300, ser d)
                              (kv (redis st))\<rparr>)\<rparr>"
    using c assms list_set_chain_state [of f d "''public_itineraries:''" 300 st]
    by (simp add: cachePublicItineraries_def)
  have r1: "kv (redis (snd (getCachedUser u st))) = kv (redis st)"
    by (simp add: getCachedUser_def get_chain_state kv_issue)
  have r2: "kv (redis (snd (getCachedItinerary i st))) = kv (redis st)"
    by (simp add: getCachedItinerary_def get_chain_state kv_issue)
  have r3: "kv (redis (snd (getCachedItineraryList u f st))) = kv (redis st)"
    using list_get_chain_state [of f "''itineraries:'' @ u @ '':''" st]
    by (simp add: getCachedItineraryList_def kv_issue)
  have r4: "kv (redis (snd (getCachedPublicItineraries f st))) = kv (redis st)"
    using list_get_chain_state [of f "''public_itineraries:''" st]
    by (simp add: getCachedPublicItineraries_def kv_issue)
  have r5: "kv (redis (snd (getCache k st))) = kv (redis st)"
    by (simp add: getCache_def get_chain_state kv_issue)
  show ?thesis
    by (simp add: w1 w2 w3 w4 r1 r2 r3 r4 r5 calls_issue kv_issue)
qed


theorem cache_keys_and_ttls_witness:
  "redisClient (connected idle_server) \<noteq> None \<and> \<not> has_bigint (JNum 7)
   \<and> \<not> has_bigint (JObj [(''page'', JNum 1)])
   \<and> \<not> fails_now (redis (connected idle_server))
   \<and> kv (redis (snd (cacheUser ''42'' (JNum 7) (connected idle_server)))) = [(''user:42'', 3600, ''7'')]
   \<and> kv (redis (snd (cacheItinerary ''1f'' (JNum 7) (connected idle_server)))) =
        [(''itinerary:1f'', 1800, ''7'')]
   \<and> kv (redis (snd (cacheItineraryList ''42'' (JObj [(''page'', JNum 1)]) (JNum 7)
                       (connected idle_server)))) =
        [(''itineraries:42:eyJwYWdlIjoxfQ=='', 600, ''7'')]
   \<and> kv (redis (snd (cachePublicItineraries (JObj [(''page'', JNum 1)]) (JNum 7)
                       (connected idle_server)))) =
        [(''public_itineraries:eyJwYWdlIjoxfQ=='', 300, ''7'')]
   \<and> kv (redis (snd (getCachedUser ''42'' (connected idle_server)))) = []"
proof -
  have h1: "redisClient (connected idle_server) \<noteq> None"
    by (simp add: connected_def)
  have h2: "\<not> has_bigint (JNum 7)"
    by simp
  have h3: "\<not> has_bigint (JObj [(''page'', JNum 1)])"
    by simp
  have h4: "\<not> fails_now (redis (connected idle_server))"
    by (simp add: connected_def idle_server_def fails_now_def)
  have e1: "ser (JNum 7) = ''7''"
    by code_simp
  have e2: "base64 (ser (JObj [(''page'', JNum 1)])) = ''eyJwYWdlIjoxfQ==''"
    by code_simp
  have e3: "kv (redis (connected idle_server)) = []"
    by (simp add: connected_def idle_server_def)
  show ?thesis
    using h1 h2 h3 h4
      cache_keys_and_ttls [OF h1 h2 h3, of "''42''" "''1f''" "''k''"]
    by (simp only: e1 e2 e3 simp_thms AList.update.simps append.simps)
qed

subsection \<open>A cached null\<close>

text \<open>
  Claim C10.  With a working client, caching the value \<^verbatim>\<open>null\<close> stores the payload
  \<^verbatim>\<open>null\<close> under the key, and reading the key back returns \<^verbatim>\<open>null\<close>, which is
  also what the read returns when the key is absent: the caller cannot tell the
  cached \<^verbatim>\<open>null\<close> from a miss.
\<close>

theorem cached_null_reads_as_miss:
  assumes "redisClient st \<noteq> None"
    and "\<not> faulty (redis st) (length (calls (redis st)))"
    and "\<not> faulty (redis st) (Suc (length (calls (redis st))))"
  shows "map_of (kv (redis (snd (cacheUser u JNull st)))) (''user:'' @ u) = Some (3600, ''null'')
       \<and> fst (getCachedUser u (snd (cacheUser u JNull st))) = Inr JNull
       \<and> (map_of (kv (redis st)) (''user:'' @ u) = None \<longrightarrow> fst (getCachedUser u st) = Inr JNull)
       \<and> map_of (kv (redis (snd (cacheItinerary i JNull st)))) (''itinerary:'' @ i) = Some (1800, ''null'')
       \<and> fst (getCachedItinerary i (snd (cacheItinerary i JNull st))) = Inr JNull
       \<and> (map_of (kv (redis st)) (''itinerary:'' @ i) = None \<longrightarrow>
            fst (getCachedItinerary i st) = Inr JNull)
       \<and> map_of (kv (redis (snd (cache k JNull None st)))) k = Some (3600, ''null'')
       \<and> fst (getCache k (snd (cache k JNull None st))) = Inr JNull
       \<and> (map_of (kv (redis st)) k = None \<longrightarrow> fst (getCache k st) = Inr JNull)"
proof -
  from assms obtain c where c: "redisClient st = Some c"
    by auto
  have nf: "\<not> fails_now (redis st)"
    using assms by (simp add: fails_now_def)
  have nb: "\<not> has_bigint JNull"
    by simp
  have after: "\<And>key ttl. 0 < ttl \<Longrightarrow>
      snd (try_catch (await (result (JSON_stringify JNull))
                        (\<lambda>data. on_client (client_setEx key ttl data))) (\<lambda>e. return ()) st) =
        st\<lparr>redis := (issue (SETEX key ttl ''null'') (redis st))
                        \<lparr>kv := AList.update key (ttl, ''null'') (kv (redis st))\<rparr>\<rparr>"
    using nf by (simp add: set_chain_state [OF nb])
  have s1: "snd (cacheUser u JNull st) =
      st\<lparr>redis := (issue (SETEX (''user:'' @ u) 3600 ''null'') (redis st))
                      \<lparr>kv := AList.update (''user:'' @ u) (3600, ''null'') (kv (redis st))\<rparr>\<rparr>"
    using c after [of 3600 "''user:'' @ u"] by (simp add: cacheUser_def)
  have s2: "snd (cacheItinerary i JNull st) =
      st\<lparr>redis := (issue (SETEX (''itinerary:'' @ i) 1800 ''null'') (redis st))
                      \<lparr>kv := AList.update (''itinerary:'' @ i) (1800, ''null'') (kv (redis st))\<rparr>\<rparr>"
    using c after [of 1800 "''itinerary:'' @ i"] by (simp add: cacheItinerary_def)
  have s3: "snd (cache k JNull None st) =
      st\<lparr>redis := (issue (SETEX k 3600 ''null'') (redis st))
                      \<lparr>kv := AList.update k (3600, ''null'') (kv (redis st))\<rparr>\<rparr>"
    using c after [of 3600 k] by (simp add: cache_def)
  have nf2: "\<And>cmd kv'. \<not> fails_now ((issue cmd (redis st))\<lparr>kv := kv'\<rparr>)"
    using assms by (simp add: fails_now_def issue_def)
  have g1: "fst (getCachedUser u (snd (cacheUser u JNull st))) = Inr JNull"
    using c by (simp add: getCachedUser_result s1 nf2 AList.update_conv' parse_null)
  have g2: "fst (getCachedItinerary i (snd (cacheItinerary i JNull st))) = Inr JNull"
    using c by (simp add: getCachedItinerary_result s2 nf2 AList.update_conv' parse_null)
  have g3: "fst (getCache k (snd (cache k JNull None st))) = Inr JNull"
    using c by (simp add: getCache_result s3 nf2 AList.update_conv' parse_null)
  show ?thesis
    using g1 g2 g3
    by (simp add: s1 s2 s3 AList.update_conv' getCachedUser_result getCachedItinerary_result
        getCache_result)
qed

theorem cached_null_reads_as_miss_witness:
  "redisClient (connected idle_server) \<noteq> None
   \<and> \<not> faulty (redis (connected idle_server)) (length (calls (redis (connected idle_server))))
   \<and> \<not> faulty (redis (connected idle_server)) (Suc (length (calls (redis (connected idle_server)))))
   \<and> map_of (kv (redis (connected idle_server))) (''user:'' @ ''42'') = None
   \<and> map_of (kv (redis (snd (cacheUser ''42'' JNull (connected idle_server))))) (''user:'' @ ''42'') =
        Some (3600, ''null'')
   \<and> fst (getCachedUser ''42'' (snd (cacheUser ''42'' JNull (connected idle_server)))) = Inr JNull
   \<and> fst (getCachedUser ''42'' (connected idle_server)) = Inr JNull"
proof -
  have h1: "redisClient (connected idle_server) \<noteq> None"
    by (simp add: connected_def)
  have h2: "\<not> faulty (redis (connected idle_server)) (length (calls (redis (connected idle_server))))"
    by (simp add: connected_def idle_server_def)
  have h3: "\<not> faulty (redis (connected idle_server)) (Suc (length (calls (redis (connected idle_server)))))"
    by (simp add: connected_def idle_server_def)
  have h4: "map_of (kv (redis (connected idle_server))) (''user:'' @ ''42'') = None"
    by (simp add: connected_def idle_server_def)
  show ?thesis
    using h1 h2 h3 h4 cached_null_reads_as_miss [OF h1 h2 h3, of "''42''" "''1f''" "''k''"]
    by simp
qed

section \<open>JSON.parse inverts JSON.stringify\<close>

lemma digit_char_is_digit: "d < 10 \<Longrightarrow> is_digit (digit_char d)"
  by (simp add: is_digit_def digit_char_def)

lemma digit_val_digit_char: "d < 10 \<Longrightarrow> digit_val (digit_char d) = d"
  by (simp add: digit_val_def digit_char_def)

lemma digits_nonempty: "digits n \<noteq> []"
  by (subst digits.simps) simp

lemma digits_all_digit: "c \<in> set (digits n) \<Longrightarrow> is_digit c"
proof (induction n arbitrary: c rule: digits.induct)
  case (1 n)
  show ?case
  proof (cases "n < 10")
    case True
    with "1.prems" show ?thesis
      by (subst (asm) digits.simps) (simp add: digit_char_is_digit)
  next
    case False
    with "1.prems" have "c \<in> set (digits (n div 10)) \<or> c = digit_char (n mod 10)"
      by (subst (asm) digits.simps) auto
    with False "1.IH" show ?thesis
      by (auto simp: digit_char_is_digit)
  qed
qed

lemma nat_of_digits_snoc: "nat_of_digits (xs @ [c]) = 10 * nat_of_digits xs + digit_val c"
  by (simp add: nat_of_digits_def)

lemma nat_of_digits_digits: "nat_of_digits (digits n) = n"
proof (induction n rule: digits.induct)
  case (1 n)
  show ?case
  proof (cases "n < 10")
    case True
    then show ?thesis
      by (subst digits.simps) (simp add: nat_of_digits_def digit_val_digit_char)
  next
    case False
    with "1.IH" have "nat_of_digits (digits (n div 10)) = n div 10"
      by simp
    with False show ?thesis
      by (subst digits.simps) (simp add: nat_of_digits_snoc digit_val_digit_char)
  qed
qed

lemma digits_hd_zero: "hd (digits n) = CHR ''0'' \<Longrightarrow> n = 0"
proof (induction n rule: digits.induct)
  case (1 n)
  show ?case
  proof (cases "n < 10")
    case True
    with "1.prems" have "digit_char n = CHR ''0''"
      by (subst (asm) digits.simps) simp
    then have "(of_char (digit_char n) :: nat) = of_char (CHR ''0'')"
      by simp
    with True show ?thesis
      by (simp add: digit_char_def)
  next
    case False
    with "1.prems" have "hd (digits (n div 10)) = CHR ''0''"
      by (subst (asm) digits.simps) (simp add: digits_nonempty)
    with False "1.IH" have "n div 10 = 0"
      by simp
    with False show ?thesis
      by simp
  qed
qed

lemma digit_char_zero: "digit_char 0 = CHR ''0''"
proof -
  have "(of_char (digit_char 0) :: nat) = of_char (CHR ''0'')"
    by (simp add: digit_char_def)
  then show ?thesis
    by (simp only: of_char_eq_iff)
qed

lemma digits_zero: "digits 0 = ''0''"
  by (subst digits.simps) (simp add: digit_char_zero)

lemma digits_no_leading_zero: "1 < length (digits n) \<Longrightarrow> hd (digits n) \<noteq> CHR ''0''"
  using digits_hd_zero [of n] digits_zero by auto


lemma is_digit_not_minus: "is_digit c \<Longrightarrow> c \<noteq> CHR ''-''"
  by (auto simp: is_digit_def)

lemma digits_hd_digit: "is_digit (hd (digits n))"
  using digits_nonempty [of n] digits_all_digit [of "hd (digits n)" n] by simp

lemma takeWhile_digits:
  assumes "rest = [] \<or> \<not> is_digit (hd rest)"
  shows "takeWhile is_digit (digits m @ rest) = digits m"
proof -
  have "takeWhile is_digit rest = []"
    using assms by (cases rest) auto
  then show ?thesis
    by (simp add: takeWhile_append2 digits_all_digit)
qed

lemma dropWhile_digits:
  assumes "rest = [] \<or> \<not> is_digit (hd rest)"
  shows "dropWhile is_digit (digits m @ rest) = rest"
proof -
  have "dropWhile is_digit rest = rest"
    using assms by (cases rest) auto
  then show ?thesis
    by (simp add: dropWhile_append2 digits_all_digit)
qed

lemma delim_not_number:
  "delim rest \<Longrightarrow> (rest = [] \<or> \<not> is_digit (hd rest)) \<and> \<not> (rest \<noteq> [] \<and> hd rest \<in> set ''.eE'')"
  by (auto simp: delim_def is_digit_def)

lemma parse_number_show_int:
  assumes "delim rest"
  shows "parse_number (show_int i @ rest) = Some (JNum i, rest)"
proof -
  note d = delim_not_number [OF assms]
  show ?thesis
  proof (cases "i < 0")
    case True
    then have s: "show_int i @ rest = CHR ''-'' # digits (nat (- i)) @ rest"
      by (simp add: show_int_def)
    show ?thesis
      unfolding s parse_number_def
      using True d digits_no_leading_zero [of "nat (- i)"]
      by (simp add: takeWhile_digits dropWhile_digits digits_nonempty nat_of_digits_digits Let_def)
  next
    case False
    then have s: "show_int i @ rest = digits (nat i) @ rest"
      by (simp add: show_int_def)
    have h: "hd (digits (nat i) @ rest) \<noteq> CHR ''-''"
      using digits_hd_digit [of "nat i"] digits_nonempty [of "nat i"]
      by (simp add: is_digit_not_minus)
    show ?thesis
      unfolding s parse_number_def
      using False d h digits_no_leading_zero [of "nat i"]
      by (simp add: takeWhile_digits dropWhile_digits digits_nonempty nat_of_digits_digits Let_def)
  qed
qed

lemma hex_val_hex_char: "m < 16 \<Longrightarrow> hex_val (hex_char m) = Some m"
proof -
  assume "m < 16"
  then have "m \<in> {0, 1, 2, 3, 4, 5, 6, 7, 8, 9, 10, 11, 12, 13, 14, 15}"
    by simp arith
  then show ?thesis
    by (auto simp: hex_char_def hex_val_def)
qed

lemma hex_val_zero: "hex_val (CHR ''0'') = Some 0"
  by (simp add: hex_val_def)

lemma parse_string_body_escape_char:
  "parse_string_body (escape_char c @ t) = cons_char c (parse_string_body t)"
proof (cases "c = CHR 0x22 \<or> c = CHR 0x5C \<or> c = CHR 0x08 \<or> c = CHR 0x0C \<or> c = CHR 0x0A
              \<or> c = CHR 0x0D \<or> c = CHR 0x09")
  case True
  then show ?thesis
    by (auto simp: escape_char_def)
next
  case False
  note plain = this
  show ?thesis
  proof (cases "(of_char c :: nat) < 32")
    case True
    then have a: "(of_char c :: nat) div 16 < 16" and b: "(of_char c :: nat) mod 16 < 16"
      by auto
    have n: "(of_char c :: nat) div 16 * 16 + of_char c mod 16 = of_char c"
      by simp
    have e: "escape_char c = [CHR 0x5C, CHR ''u'', CHR ''0'', CHR ''0'',
         hex_char (of_char c div 16), hex_char (of_char c mod 16)]"
      using plain True by (simp add: escape_char_def)
    show ?thesis
      unfolding e using True
      by (simp add: hex_val_zero hex_val_hex_char [OF a] hex_val_hex_char [OF b] n)
  next
    case False
    with plain show ?thesis
      by (simp add: escape_char_def)
  qed
qed

lemma parse_string_body_escaped:
  "parse_string_body (concat (map escape_char s) @ CHR 0x22 # rest) = Some (s, rest)"
  by (induction s) (simp_all add: parse_string_body_escape_char cons_char_def)


lemma skip_ws_id: "s \<noteq> [] \<Longrightarrow> \<not> is_ws (hd s) \<Longrightarrow> skip_ws s = s"
  by (cases s) (simp_all add: skip_ws_def)

lemma skip_ws_starts_value: "starts_value s \<Longrightarrow> skip_ws s = s"
  by (simp add: starts_value_def skip_ws_id)

lemma show_int_hd: "show_int i = c # r \<Longrightarrow> c = CHR ''-'' \<or> is_digit c"
  using digits_hd_digit [of "nat i"] digits_nonempty [of "nat i"]
  by (cases "digits (nat i)") (auto simp: show_int_def split: if_splits)

lemma show_int_nonempty: "show_int i \<noteq> []"
  by (simp add: show_int_def digits_nonempty)

lemma number_start_not_special:
  "c = CHR ''-'' \<or> is_digit c \<Longrightarrow>
   \<not> is_ws c \<and> c \<noteq> CHR ''n'' \<and> c \<noteq> CHR ''t'' \<and> c \<noteq> CHR ''f'' \<and> c \<noteq> CHR 0x22
   \<and> c \<noteq> CHR ''['' \<and> c \<noteq> CHR ''{'' \<and> c \<noteq> CHR '']'' \<and> c \<noteq> CHR ''}''"
  by (auto simp: is_digit_def is_ws_def)

lemma ser_starts_value: "json_representable v \<Longrightarrow> starts_value (ser v @ rest)"
proof (cases v)
  case (JNum i)
  obtain c r where cr: "show_int i = c # r"
    using show_int_nonempty [of i] by (cases "show_int i") auto
  from show_int_hd [OF cr] number_start_not_special [of c] show ?thesis
    by (simp add: JNum cr starts_value_def)
qed (simp_all add: starts_value_def is_ws_def quote_def)

lemma parse_value_number:
  assumes "show_int i = c # r"
  shows "parse_value (Suc m) (show_int i @ rest) = parse_number (show_int i @ rest)"
proof -
  note ns = number_start_not_special [OF show_int_hd [OF assms]]
  have sk: "skip_ws (show_int i @ rest) = c # r @ rest"
    using ns by (simp add: assms skip_ws_id)
  show ?thesis
    using ns by (simp add: sk) (simp add: assms)
qed

lemma delim_cons: "delim (CHR '','' # s)" "delim (CHR '']'' # s)" "delim (CHR ''}'' # s)"
  by (simp_all add: delim_def)

lemma skip_ws_punct:
  "skip_ws (CHR '','' # s) = CHR '','' # s" "skip_ws (CHR '']'' # s) = CHR '']'' # s"
  "skip_ws (CHR ''}'' # s) = CHR ''}'' # s" "skip_ws (CHR '':'' # s) = CHR '':'' # s"
  "skip_ws (CHR 0x22 # s) = CHR 0x22 # s"
  by (simp_all add: skip_ws_def is_ws_def)

lemma parse_elements_join:
  assumes IH: "\<And>x n rest. x \<in> set xs \<Longrightarrow> json_representable x \<Longrightarrow> length (ser x) \<le> n \<Longrightarrow>
                 delim rest \<Longrightarrow> parse_value n (ser x @ rest) = Some (x, rest)"
    and "xs \<noteq> []" and "list_all json_representable xs"
    and "length (join '','' (map ser xs)) + 1 \<le> n"
  shows "parse_elements n (join '','' (map ser xs) @ CHR '']'' # rest) = Some (xs, rest)"
  using assms
proof (induction xs arbitrary: n)
  case Nil
  then show ?case by simp
next
  case (Cons x xs)
  from Cons.prems(4) obtain m where n: "n = Suc m"
    by (cases n) auto
  have rx: "json_representable x"
    using Cons.prems(3) by simp
  show ?case
  proof (cases xs)
    case Nil
    have "length (ser x) \<le> m"
      using Cons.prems(4) by (simp add: n Nil)
    then have "parse_value m (ser x @ CHR '']'' # rest) = Some (x, CHR '']'' # rest)"
      using Cons.prems(1) [of x m "CHR '']'' # rest"] rx by (simp add: delim_cons)
    then show ?thesis
      by (simp add: n Nil skip_ws_punct)
  next
    case (Cons y ys)
    let ?tail = "join '','' (map ser (y # ys)) @ CHR '']'' # rest"
    have len: "length (ser x) + 1 + length (join '','' (map ser (y # ys))) + 1 \<le> Suc m"
      using Cons.prems(4) by (simp add: n Cons)
    then have "length (ser x) \<le> m"
      by simp
    then have px: "parse_value m (ser x @ CHR '','' # ?tail) = Some (x, CHR '','' # ?tail)"
      using Cons.prems(1) [of x m "CHR '','' # ?tail"] rx by (simp add: delim_cons)
    have "parse_elements m ?tail = Some (y # ys, rest)"
    proof (rule Cons.IH [unfolded Cons])
      show "\<And>z k r. z \<in> set (y # ys) \<Longrightarrow> json_representable z \<Longrightarrow> length (ser z) \<le> k \<Longrightarrow>
              delim r \<Longrightarrow> parse_value k (ser z @ r) = Some (z, r)"
        using Cons.prems(1) by (simp add: Cons)
      show "y # ys \<noteq> []" by simp
      show "list_all json_representable (y # ys)"
        using Cons.prems(3) by (simp add: Cons)
      show "length (join '','' (map ser (y # ys))) + 1 \<le> m"
        using len by simp
    qed
    with px show ?thesis
      by (simp add: n Cons skip_ws_punct)
  qed
qed


lemma quote_append: "quote k @ t = CHR 0x22 # concat (map escape_char k) @ CHR 0x22 # t"
  by (simp add: quote_def)

lemma parse_members_join:
  assumes IH: "\<And>kv n rest. kv \<in> set fs \<Longrightarrow> json_representable (snd kv) \<Longrightarrow>
                 length (ser (snd kv)) \<le> n \<Longrightarrow> delim rest \<Longrightarrow>
                 parse_value n (ser (snd kv) @ rest) = Some (snd kv, rest)"
    and "fs \<noteq> []" and "list_all (\<lambda>kv. json_representable (snd kv)) fs"
    and "length (join '','' (map (\<lambda>kv. quote (fst kv) @ '':'' @ ser (snd kv)) fs)) + 1 \<le> n"
  shows "parse_members n (join '','' (map (\<lambda>kv. quote (fst kv) @ '':'' @ ser (snd kv)) fs)
                           @ CHR ''}'' # rest) = Some (fs, rest)"
  using assms
proof (induction fs arbitrary: n)
  case Nil
  then show ?case by simp
next
  case (Cons p fs)
  obtain k v where p: "p = (k, v)"
    by (cases p)
  from Cons.prems(4) obtain m where n: "n = Suc m"
    by (cases n) auto
  have rv: "json_representable v"
    using Cons.prems(3) by (simp add: p)
  show ?case
  proof (cases fs)
    case Nil
    have "length (ser v) \<le> m"
      using Cons.prems(4) by (simp add: n Nil p)
    then have "parse_value m (ser v @ CHR ''}'' # rest) = Some (v, CHR ''}'' # rest)"
      using Cons.prems(1) [of p m "CHR ''}'' # rest"] rv by (simp add: delim_cons p)
    then show ?thesis
      by (simp add: n Nil p quote_append skip_ws_punct parse_string_body_escaped)
  next
    case (Cons q gs)
    let ?mem = "\<lambda>kv. quote (fst kv) @ '':'' @ ser (snd kv)"
    let ?tail = "join '','' (map ?mem (q # gs)) @ CHR ''}'' # rest"
    have len: "length (quote k) + 1 + length (ser v) + 1 + length (join '','' (map ?mem (q # gs))) + 1
                 \<le> Suc m"
      using Cons.prems(4) by (simp add: n Cons p)
    then have "length (ser v) \<le> m"
      by simp
    then have pv: "parse_value m (ser v @ CHR '','' # ?tail) = Some (v, CHR '','' # ?tail)"
      using Cons.prems(1) [of p m "CHR '','' # ?tail"] rv by (simp add: delim_cons p)
    have "parse_members m ?tail = Some (q # gs, rest)"
    proof (rule Cons.IH [unfolded Cons])
      show "\<And>kv j r. kv \<in> set (q # gs) \<Longrightarrow> json_representable (snd kv) \<Longrightarrow>
              length (ser (snd kv)) \<le> j \<Longrightarrow> delim r \<Longrightarrow>
              parse_value j (ser (snd kv) @ r) = Some (snd kv, r)"
        using Cons.prems(1) by (simp add: Cons)
      show "q # gs \<noteq> []" by simp
      show "list_all (\<lambda>kv. json_representable (snd kv)) (q # gs)"
        using Cons.prems(3) by (simp add: Cons)
      show "length (join '','' (map ?mem (q # gs))) + 1 \<le> m"
        using len by simp
    qed
    with pv show ?thesis
      by (simp add: n Cons p quote_append skip_ws_punct parse_string_body_escaped)
  qed
qed

lemma update_fresh: "k \<notin> fst ` set al \<Longrightarrow> AList.update k v al = al @ [(k, v)]"
  by (induction al) auto

lemma foldl_update_distinct:
  "distinct (map fst (acc @ ms)) \<Longrightarrow>
   foldl (\<lambda>a kv. AList.update (fst kv) (snd kv) a) acc ms = acc @ ms"
proof (induction ms arbitrary: acc)
  case Nil
  then show ?case by simp
next
  case (Cons p ms)
  have fresh: "fst p \<notin> fst ` set acc"
    using Cons.prems by auto
  have "distinct (map fst ((acc @ [p]) @ ms))"
    using Cons.prems by simp
  from Cons.IH [OF this] show ?case
    by (simp add: update_fresh [OF fresh])
qed

lemma parse_value_ser:
  "json_representable v \<Longrightarrow> length (ser v) \<le> n \<Longrightarrow> delim rest \<Longrightarrow>
   parse_value n (ser v @ rest) = Some (v, rest)"
proof (induction v arbitrary: n rest)
  case JNull
  then obtain m where "n = Suc m" by (cases n) auto
  then show ?case by (simp add: skip_ws_def is_ws_def)
next
  case (JBool b)
  then obtain m where "n = Suc m" by (cases n) (auto split: if_splits)
  then show ?case by (simp add: skip_ws_def is_ws_def)
next
  case (JNum i)
  obtain c r where cr: "show_int i = c # r"
    using show_int_nonempty [of i] by (cases "show_int i") auto
  from JNum cr obtain m where n: "n = Suc m" by (cases n) auto
  show ?case
    using parse_value_number [OF cr, of m rest] parse_number_show_int [OF JNum.prems(3), of i]
    by (simp add: n)
next
  case (JStr s)
  then obtain m where "n = Suc m" by (cases n) (auto simp: quote_def)
  then show ?case
    by (simp add: quote_append skip_ws_punct parse_string_body_escaped)
next
  case (JArr xs)
  from JArr.prems obtain m where n: "n = Suc m" by (cases n) auto
  show ?case
  proof (cases xs)
    case Nil
    then show ?thesis
      by (simp add: n skip_ws_def is_ws_def)
  next
    case (Cons y ys)
    let ?body = "join '','' (map ser xs) @ CHR '']'' # rest"
    have ry: "json_representable y"
      using JArr.prems(1) by (simp add: Cons)
    have sv: "starts_value ?body"
    proof (cases ys)
      case Nil
      with ser_starts_value [OF ry] show ?thesis by (simp add: Cons)
    next
      case (Cons z zs)
      with ser_starts_value [OF ry] show ?thesis by (simp add: \<open>xs = y # ys\<close>)
    qed
    then obtain d r1 where dr: "?body = d # r1" and d: "d \<noteq> CHR '']''"
      by (cases ?body) (auto simp: starts_value_def)
    have pe: "parse_elements m ?body = Some (xs, rest)"
    proof (rule parse_elements_join)
      show "\<And>x k r. x \<in> set xs \<Longrightarrow> json_representable x \<Longrightarrow> length (ser x) \<le> k \<Longrightarrow>
              delim r \<Longrightarrow> parse_value k (ser x @ r) = Some (x, r)"
        using JArr.IH by blast
      show "xs \<noteq> []" by (simp add: Cons)
      show "list_all json_representable xs"
        using JArr.prems(1) by simp
      show "length (join '','' (map ser xs)) + 1 \<le> m"
        using JArr.prems(2) by (simp add: n)
    qed
    have "parse_value (Suc m) (CHR ''['' # ?body) = Some (JArr xs, rest)"
      using skip_ws_starts_value [OF sv] pe d
      by (simp add: skip_ws_def is_ws_def dr)
    then show ?thesis
      by (simp add: n)
  qed
next
  case (JObj fs)
  from JObj.prems obtain m where n: "n = Suc m" by (cases n) auto
  let ?mem = "\<lambda>kv. quote (fst kv) @ '':'' @ ser (snd kv)"
  show ?case
  proof (cases fs)
    case Nil
    then show ?thesis
      by (simp add: n skip_ws_def is_ws_def)
  next
    case (Cons p ps)
    let ?body = "join '','' (map ?mem fs) @ CHR ''}'' # rest"
    have "\<exists>r1. ?body = CHR 0x22 # r1"
      by (cases ps) (simp_all add: Cons quote_def)
    then obtain r1 where dr: "?body = CHR 0x22 # r1"
      by blast
    have pm: "parse_members m ?body = Some (fs, rest)"
    proof (rule parse_members_join)
      show "\<And>kv k r. kv \<in> set fs \<Longrightarrow> json_representable (snd kv) \<Longrightarrow>
              length (ser (snd kv)) \<le> k \<Longrightarrow> delim r \<Longrightarrow>
              parse_value k (ser (snd kv) @ r) = Some (snd kv, r)"
      proof -
        fix kv k r
        assume "kv \<in> set fs" "json_representable (snd kv)" "length (ser (snd kv)) \<le> k" "delim r"
        moreover have "snd kv \<in> Basic_BNFs.snds kv"
          by (cases kv) simp
        ultimately show "parse_value k (ser (snd kv) @ r) = Some (snd kv, r)"
          using JObj.IH by blast
      qed
      show "fs \<noteq> []" by (simp add: Cons)
      show "list_all (\<lambda>kv. json_representable (snd kv)) fs"
        using JObj.prems(1) by (simp add: list_all_iff)
      show "length (join '','' (map ?mem fs)) + 1 \<le> m"
        using JObj.prems(2) by (simp add: n)
    qed
    have dist: "distinct (map fst ([] @ fs))"
      using JObj.prems(1) by simp
    have "parse_value (Suc m) (CHR ''{'' # ?body) = Some (JObj fs, rest)"
      using pm foldl_update_distinct [OF dist] dr
      by (simp add: skip_ws_def is_ws_def)
    then show ?thesis
      by (simp add: n)
  qed
next
  case (JBigInt i)
  then show ?case by simp
qed

lemma JSON_parse_stringify:
  "json_representable v \<Longrightarrow> JSON_parse (ser v) = Inr v"
  using parse_value_ser [of v "length (ser v)" "[]"]
  by (simp add: JSON_parse_def delim_def skip_ws_def)

section \<open>Reading back what was cached\<close>

lemma representable_no_bigint: "json_representable v \<Longrightarrow> \<not> has_bigint v"
proof (induction v)
  case (JArr xs)
  then show ?case
    by (auto simp: list_all_iff list_ex_iff)
next
  case (JObj fs)
  have "\<And>kv. kv \<in> set fs \<Longrightarrow> \<not> has_bigint (snd kv)"
  proof -
    fix kv
    assume m: "kv \<in> set fs"
    moreover have "snd kv \<in> Basic_BNFs.snds kv"
      by (cases kv) simp
    moreover have "json_representable (snd kv)"
      using JObj.prems m by (simp add: list_all_iff)
    ultimately show "\<not> has_bigint (snd kv)"
      using JObj.IH by blast
  qed
  then show ?case
    by (auto simp: list_ex_iff)
qed simp_all

lemma read_after_write:
  assumes c: "redisClient st = Some c"
    and f1: "\<not> faulty (redis st) (length (calls (redis st)))"
    and f2: "\<not> faulty (redis st) (Suc (length (calls (redis st))))"
    and v: "json_representable v" and ttl: "0 < ttl"
  shows "fst (try_catch (await (on_client (client_get k)) parse_or_null) (\<lambda>e. return JNull)
           (snd (try_catch (await (result (JSON_stringify v))
                              (\<lambda>data. on_client (client_setEx k ttl data)))
                   (\<lambda>e. return ()) st))) = Inr v"
proof -
  have nb: "\<not> has_bigint v"
    by (rule representable_no_bigint [OF v])
  have nf: "\<not> fails_now (redis st)"
    using f1 by (simp add: fails_now_def)
  have s: "snd (try_catch (await (result (JSON_stringify v))
                              (\<lambda>data. on_client (client_setEx k ttl data)))
                   (\<lambda>e. return ()) st) =
        st\<lparr>redis := (issue (SETEX k ttl (ser v)) (redis st))
                        \<lparr>kv := AList.update k (ttl, ser v) (kv (redis st))\<rparr>\<rparr>"
    using nf ttl by (simp add: set_chain_state [OF nb])
  have nf2: "\<not> fails_now ((issue (SETEX k ttl (ser v)) (redis st))
                               \<lparr>kv := AList.update k (ttl, ser v) (kv (redis st))\<rparr>)"
    using f2 by (simp add: fails_now_def issue_def)
  show ?thesis
    unfolding s get_chain_result
    using nf2 by (simp add: AList.update_conv' JSON_parse_stringify [OF v])
qed

text \<open>
  Claim C8.  With a working client (the two calls succeed): a read of an entity whose
  key is not in the store returns \<^verbatim>\<open>null\<close>; and for every JSON-representable
  value \<open>v\<close>, the read that follows \<^verbatim>\<open>cacheUser(id, v)\<close>, and likewise
  \<^verbatim>\<open>cacheItinerary(id, v)\<close>, returns \<open>v\<close> itself.
\<close>

theorem cache_entity_roundtrip:
  assumes "redisClient st \<noteq> None"
    and "\<not> faulty (redis st) (length (calls (redis st)))"
    and "\<not> faulty (redis st) (Suc (length (calls (redis st))))"
    and "json_representable v"
  shows "(map_of (kv (redis st)) (''user:'' @ u) = None \<longrightarrow> fst (getCachedUser u st) = Inr JNull)
       \<and> fst (getCachedUser u (snd (cacheUser u v st))) = Inr v
       \<and> (map_of (kv (redis st)) (''itinerary:'' @ i) = None \<longrightarrow>
            fst (getCachedItinerary i st) = Inr JNull)
       \<and> fst (getCachedItinerary i (snd (cacheItinerary i v st))) = Inr v"
proof -
  from assms(1) obtain c where c: "redisClient st = Some c"
    by auto
  have cu: "redisClient (snd (cacheUser u v st)) = Some c"
    using c set_chain_state [OF representable_no_bigint [OF assms(4)], of "''user:'' @ u" 3600 st]
    by (simp add: cacheUser_def)
  have ci: "redisClient (snd (cacheItinerary i v st)) = Some c"
    using c set_chain_state [OF representable_no_bigint [OF assms(4)], of "''itinerary:'' @ i" 1800 st]
    by (simp add: cacheItinerary_def)
  have g1: "fst (getCachedUser u (snd (cacheUser u v st))) = Inr v"
    using read_after_write [OF c assms(2) assms(3) assms(4), of 3600 "''user:'' @ u"] c cu
    by (simp add: getCachedUser_def cacheUser_def)
  have g2: "fst (getCachedItinerary i (snd (cacheItinerary i v st))) = Inr v"
    using read_after_write [OF c assms(2) assms(3) assms(4), of 1800 "''itinerary:'' @ i"] c ci
    by (simp add: getCachedItinerary_def cacheItinerary_def)
  show ?thesis
    using g1 g2 by (simp add: getCachedUser_result getCachedItinerary_result)
qed

theorem cache_entity_roundtrip_witness:
  "redisClient (connected idle_server) \<noteq> None
   \<and> \<not> faulty (redis (connected idle_server)) (length (calls (redis (connected idle_server))))
   \<and> \<not> faulty (redis (connected idle_server)) (Suc (length (calls (redis (connected idle_server)))))
   \<and> json_representable sample_user
   \<and> map_of (kv (redis (connected idle_server))) (''user:'' @ ''42'') = None
   \<and> fst (getCachedUser ''42'' (connected idle_server)) = Inr JNull
   \<and> fst (getCachedUser ''42'' (snd (cacheUser ''42'' sample_user (connected idle_server)))) =
        Inr sample_user"
proof -
  have h1: "redisClient (connected idle_server) \<noteq> None"
    by (simp add: connected_def)
  have h2: "\<not> faulty (redis (connected idle_server)) (length (calls (redis (connected idle_server))))"
    by (simp add: connected_def idle_server_def)
  have h3: "\<not> faulty (redis (connected idle_server)) (Suc (length (calls (redis (connected idle_server)))))"
    by (simp add: connected_def idle_server_def)
  have h4: "json_representable sample_user"
    by (simp add: sample_user_def is_array_index_def is_digit_def)
  have h5: "map_of (kv (redis (connected idle_server))) (''user:'' @ ''42'') = None"
    by (simp add: connected_def idle_server_def)
  show ?thesis
    using h1 h2 h3 h4 h5 cache_entity_roundtrip [OF h1 h2 h3 h4, of "''42''" "''1f''"]
    by simp
qed

section \<open>The list-cache key\<close>

subsection \<open>The base64 encoding is injective\<close>

lemma b64_alphabet_distinct:
  "distinct ''ABCDEFGHIJKLMNOPQRSTUVWXYZabcdefghijklmnopqrstuvwxyz0123456789+/''"
  by simp

lemma b64_char_inj: "b64_char m = b64_char n \<Longrightarrow> m mod 64 = n mod 64"
  unfolding b64_char_def
  by (subst (asm) nth_eq_iff_index_eq [OF b64_alphabet_distinct]) simp_all

lemma b64_char_not_pad: "b64_char n \<noteq> CHR ''=''"
proof -
  have "b64_char n \<in> set ''ABCDEFGHIJKLMNOPQRSTUVWXYZabcdefghijklmnopqrstuvwxyz0123456789+/''"
    unfolding b64_char_def by (rule nth_mem) simp
  then show ?thesis
    by auto
qed

lemma digit_pair_inj:
  fixes p q p' q' k :: nat
  assumes "q < k" "q' < k" "p * k + q = p' * k + q'"
  shows "p = p' \<and> q = q'"
proof -
  have "(p * k + q) div k = p" "(p' * k + q') div k = p'"
    using assms(1,2) by simp_all
  with assms(3) have "p = p'"
    by metis
  with assms(3) show ?thesis
    by simp
qed

lemma sextets_inj3:
  fixes x y z x' y' z' :: nat
  assumes b: "x < 256" "y < 256" "z < 256" "x' < 256" "y' < 256" "z' < 256"
    and e1: "(x div 4) mod 64 = (x' div 4) mod 64"
    and e2: "((x mod 4) * 16 + y div 16) mod 64 = ((x' mod 4) * 16 + y' div 16) mod 64"
    and e3: "((y mod 16) * 4 + z div 64) mod 64 = ((y' mod 16) * 4 + z' div 64) mod 64"
    and e4: "(z mod 64) mod 64 = (z' mod 64) mod 64"
  shows "x = x' \<and> y = y' \<and> z = z'"
proof -
  have x4: "x div 4 = x' div 4"
    using e1 b by simp
  have p: "x mod 4 < 4" "x' mod 4 < 4" "y div 16 < 16" "y' div 16 < 16"
    "y mod 16 < 16" "y' mod 16 < 16" "z div 64 < 4" "z' div 64 < 4"
    using b by simp_all
  have s2: "((x mod 4) * 16 + y div 16) mod 64 = (x mod 4) * 16 + y div 16"
    "((x' mod 4) * 16 + y' div 16) mod 64 = (x' mod 4) * 16 + y' div 16"
    using p(1-4) by simp_all
  have s3: "((y mod 16) * 4 + z div 64) mod 64 = (y mod 16) * 4 + z div 64"
    "((y' mod 16) * 4 + z' div 64) mod 64 = (y' mod 16) * 4 + z' div 64"
    using p(5-8) by simp_all
  have "(x mod 4) * 16 + y div 16 = (x' mod 4) * 16 + y' div 16"
    using e2 unfolding s2 .
  from digit_pair_inj [OF p(3) p(4) this]
  have xm: "x mod 4 = x' mod 4" and yd: "y div 16 = y' div 16"
    by simp_all
  have "(y mod 16) * 4 + z div 64 = (y' mod 16) * 4 + z' div 64"
    using e3 unfolding s3 .
  from digit_pair_inj [OF p(7) p(8) this]
  have ym: "y mod 16 = y' mod 16" and zd: "z div 64 = z' div 64"
    by simp_all
  have zm: "z mod 64 = z' mod 64"
    using e4 by simp
  have "x = x'"
    using x4 xm by (metis div_mult_mod_eq)
  moreover have "y = y'"
    using yd ym by (metis div_mult_mod_eq)
  moreover have "z = z'"
    using zd zm by (metis div_mult_mod_eq)
  ultimately show ?thesis
    by simp
qed

lemma base64_quad:
  assumes "b64_char (of_char a div 4) = b64_char (of_char a' div 4)"
    and "b64_char ((of_char a mod 4) * 16 + of_char b div 16) =
         b64_char ((of_char a' mod 4) * 16 + of_char b' div 16)"
    and "b64_char ((of_char b mod 16) * 4 + of_char c div 64) =
         b64_char ((of_char b' mod 16) * 4 + of_char c' div 64)"
    and "b64_char (of_char c mod 64) = b64_char (of_char c' mod 64)"
  shows "a = a' \<and> b = b' \<and> c = c'"
proof -
  have "(of_char a :: nat) = of_char a' \<and> (of_char b :: nat) = of_char b'
        \<and> (of_char c :: nat) = of_char c'"
    by (rule sextets_inj3) (simp_all add: b64_char_inj [OF assms(1)] b64_char_inj [OF assms(2)]
        b64_char_inj [OF assms(3)] b64_char_inj [OF assms(4)] del: mod_mod_trivial)
  then show ?thesis
    by simp
qed


lemma base64_Nil_iff: "base64 xs = [] \<longleftrightarrow> xs = []"
  by (cases xs rule: base64.cases) (simp_all add: Let_def)

lemma base64_inj: "base64 xs = base64 ys \<Longrightarrow> xs = ys"
proof (induction xs arbitrary: ys rule: base64.induct)
  case 1
  then show ?case
    using base64_Nil_iff [of ys] by simp
next
  case (2 a)
  show ?case
  proof (cases ys rule: base64.cases)
    case 1
    with "2.prems" show ?thesis by (simp add: Let_def)
  next
    case (2 a')
    with "2.prems" have e: "b64_char (of_char a div 4) = b64_char (of_char a' div 4)"
      "b64_char ((of_char a mod 4) * 16) = b64_char ((of_char a' mod 4) * 16)"
      by (simp_all add: Let_def)
    from base64_quad [of a a' "CHR 0x00" "CHR 0x00" "CHR 0x00" "CHR 0x00"] e have "a = a'"
      by simp
    with 2 show ?thesis by simp
  next
    case (3 a' b')
    with "2.prems" b64_char_not_pad show ?thesis
      by (simp add: Let_def) metis
  next
    case (4 a' b' c' r')
    with "2.prems" b64_char_not_pad show ?thesis
      by (simp add: Let_def) metis
  qed
next
  case (3 a b)
  show ?case
  proof (cases ys rule: base64.cases)
    case 1
    with "3.prems" show ?thesis by (simp add: Let_def)
  next
    case (2 a')
    with "3.prems" b64_char_not_pad show ?thesis
      by (simp add: Let_def)
  next
    case (3 a' b')
    with "3.prems" have e: "b64_char (of_char a div 4) = b64_char (of_char a' div 4)"
      "b64_char ((of_char a mod 4) * 16 + of_char b div 16) =
       b64_char ((of_char a' mod 4) * 16 + of_char b' div 16)"
      "b64_char ((of_char b mod 16) * 4) = b64_char ((of_char b' mod 16) * 4)"
      by (simp_all add: Let_def)
    from base64_quad [of a a' b b' "CHR 0x00" "CHR 0x00"] e have "a = a' \<and> b = b'"
      by simp
    with 3 show ?thesis by simp
  next
    case (4 a' b' c' r')
    with "3.prems" b64_char_not_pad show ?thesis
      by (simp add: Let_def) metis
  qed
next
  case (4 a b c r)
  show ?case
  proof (cases ys rule: base64.cases)
    case 1
    with "4.prems" show ?thesis by (simp add: Let_def)
  next
    case (2 a')
    with "4.prems" b64_char_not_pad show ?thesis
      by (simp add: Let_def)
  next
    case (3 a' b')
    with "4.prems" b64_char_not_pad show ?thesis
      by (simp add: Let_def)
  next
    case (4 a' b' c' r')
    with "4.prems" have e: "b64_char (of_char a div 4) = b64_char (of_char a' div 4)"
      "b64_char ((of_char a mod 4) * 16 + of_char b div 16) =
       b64_char ((of_char a' mod 4) * 16 + of_char b' div 16)"
      "b64_char ((of_char b mod 16) * 4 + of_char c div 64) =
       b64_char ((of_char b' mod 16) * 4 + of_char c' div 64)"
      "b64_char (of_char c mod 64) = b64_char (of_char c' mod 64)"
      and r: "base64 r = base64 r'"
      by (simp_all add: Let_def)
    from base64_quad [OF e] "4.IH" [OF refl refl refl r] 4 show ?thesis
      by simp
  qed
qed


subsection \<open>Filter records and their keys\<close>

lemma ser_inj:
  assumes "json_representable f" and "json_representable g" and "ser f = ser g"
  shows "f = g"
proof -
  have "Inr f = JSON_parse (ser f)"
    by (simp only: JSON_parse_stringify [OF assms(1)])
  also have "\<dots> = JSON_parse (ser g)"
    by (simp only: assms(3))
  also have "\<dots> = Inr g"
    by (simp only: JSON_parse_stringify [OF assms(2)])
  finally show ?thesis
    by simp
qed

lemma encoded_filters_eq_iff:
  "json_representable f \<Longrightarrow> json_representable g \<Longrightarrow> base64 (ser f) = base64 (ser g) \<longleftrightarrow> f = g"
  using base64_inj [of "ser f" "ser g"] ser_inj [of f g] by auto

lemma filters_a_text: "base64 (ser filters_a) = ''eyJwYWdlIjoxLCJsaW1pdCI6MTAsInNvcnQiOiItY3JlYXRlZEF0In0=''"
  unfolding filters_a_def by code_simp

lemma filters_b_text: "base64 (ser filters_b) = ''eyJzb3J0IjoiLWNyZWF0ZWRBdCIsImxpbWl0IjoxMCwicGFnZSI6MX0=''"
  unfolding filters_b_def by code_simp

lemma filters_representable: "json_representable filters_a" "json_representable filters_b"
  by (simp_all add: filters_a_def filters_b_def is_array_index_def is_digit_def)

text \<open>
  Claim C1 says that two filter records with the same field-value pairs in different
  field orders get the same list-cache key.  The key is built from
  \<^verbatim>\<open>JSON.stringify(filters)\<close>, which lists the fields in the order of the record: for
  the two records of the specification the keys differ, in the user scope and in the
  public scope, and a list cached under the first record is not found under the
  second.
\<close>

theorem list_key_field_order_counterexample:
  "calls (redis (snd (getCachedItineraryList ''42'' filters_a (connected idle_server)))) =
     [GET ''itineraries:42:eyJwYWdlIjoxLCJsaW1pdCI6MTAsInNvcnQiOiItY3JlYXRlZEF0In0='']
   \<and> calls (redis (snd (getCachedItineraryList ''42'' filters_b (connected idle_server)))) =
     [GET ''itineraries:42:eyJzb3J0IjoiLWNyZWF0ZWRBdCIsImxpbWl0IjoxMCwicGFnZSI6MX0='']
   \<and> calls (redis (snd (getCachedPublicItineraries filters_a (connected idle_server)))) =
     [GET ''public_itineraries:eyJwYWdlIjoxLCJsaW1pdCI6MTAsInNvcnQiOiItY3JlYXRlZEF0In0='']
   \<and> calls (redis (snd (getCachedPublicItineraries filters_b (connected idle_server)))) =
     [GET ''public_itineraries:eyJzb3J0IjoiLWNyZWF0ZWRBdCIsImxpbWl0IjoxMCwicGFnZSI6MX0='']
   \<and> fst (getCachedItineraryList ''42'' filters_a
             (snd (cacheItineraryList ''42'' filters_a (JNum 7) (connected idle_server)))) = Inr (JNum 7)
   \<and> fst (getCachedItineraryList ''42'' filters_b
             (snd (cacheItineraryList ''42'' filters_a (JNum 7) (connected idle_server)))) = Inr JNull"
proof -
  have na: "\<not> has_bigint filters_a" and nb: "\<not> has_bigint filters_b" and n7: "\<not> has_bigint (JNum 7)"
    by (simp_all add: filters_a_def filters_b_def)
  have c: "redisClient (connected idle_server) = Some Client"
    by (simp add: connected_def)
  have g1: "snd (getCachedItineraryList ''42'' filters_a (connected idle_server)) =
      (connected idle_server)\<lparr>redis := issue (GET (''itineraries:42:'' @ base64 (ser filters_a)))
                                          (redis (connected idle_server))\<rparr>"
    using c na list_get_chain_state [of filters_a "''itineraries:42:''" "connected idle_server"]
    by (simp add: getCachedItineraryList_def)
  have g2: "snd (getCachedItineraryList ''42'' filters_b (connected idle_server)) =
      (connected idle_server)\<lparr>redis := issue (GET (''itineraries:42:'' @ base64 (ser filters_b)))
                                          (redis (connected idle_server))\<rparr>"
    using c nb list_get_chain_state [of filters_b "''itineraries:42:''" "connected idle_server"]
    by (simp add: getCachedItineraryList_def)
  have g3: "snd (getCachedPublicItineraries filters_a (connected idle_server)) =
      (connected idle_server)\<lparr>redis := issue (GET (''public_itineraries:'' @ base64 (ser filters_a)))
                                          (redis (connected idle_server))\<rparr>"
    using c na list_get_chain_state [of filters_a "''public_itineraries:''" "connected idle_server"]
    by (simp add: getCachedPublicItineraries_def)
  have g4: "snd (getCachedPublicItineraries filters_b (connected idle_server)) =
      (connected idle_server)\<lparr>redis := issue (GET (''public_itineraries:'' @ base64 (ser filters_b)))
                                          (redis (connected idle_server))\<rparr>"
    using c nb list_get_chain_state [of filters_b "''public_itineraries:''" "connected idle_server"]
    by (simp add: getCachedPublicItineraries_def)
  have w: "snd (cacheItineraryList ''42'' filters_a (JNum 7) (connected idle_server)) =
      connected \<lparr>kv = [(''itineraries:42:'' @ base64 (ser filters_a), 600, ser (JNum 7))],
                 calls = [SETEX (''itineraries:42:'' @ base64 (ser filters_a)) 600 (ser (JNum 7))],
                 faulty = (\<lambda>n. False)\<rparr>"
    using c na n7 list_set_chain_state [of filters_a "JNum 7" "''itineraries:42:''" 600 "connected idle_server"]
    by (simp add: cacheItineraryList_def connected_def idle_server_def issue_def fails_now_def)
  have s7: "JSON_parse (ser (JNum 7)) = Inr (JNum 7)"
    by (rule JSON_parse_stringify) simp
  have r1: "fst (getCachedItineraryList ''42'' filters_a
             (snd (cacheItineraryList ''42'' filters_a (JNum 7) (connected idle_server)))) = Inr (JNum 7)"
    unfolding w getCachedItineraryList_result
    using na s7 by (simp add: connected_def fails_now_def)
  have r2: "fst (getCachedItineraryList ''42'' filters_b
             (snd (cacheItineraryList ''42'' filters_a (JNum 7) (connected idle_server)))) = Inr JNull"
    unfolding w getCachedItineraryList_result
    using nb by (simp add: connected_def fails_now_def filters_a_text filters_b_text)
  have c0: "calls (redis (connected idle_server)) = []"
    by (simp add: connected_def idle_server_def)
  show ?thesis
    unfolding g1 g2 g3 g4 r1 r2
    by (simp add: calls_issue c0 filters_a_text filters_b_text)
qed


text \<open>
  Claim C1 as amended.  The encoding is a pure function of the filter record as an
  ordered record: with a client present, the write and the read operation of a scope
  address the key \<^verbatim>\<open>itineraries:<userId>:<base64 of the JSON text>\<close> (public scope:
  \<^verbatim>\<open>public_itineraries:<base64 of the JSON text>\<close>) for the same record, and two
  JSON-representable filter records get the same key exactly when they are the same
  record with the fields in the same order.
\<close>

theorem list_key_same_ordered_record:
  assumes "redisClient st \<noteq> None" and "json_representable f" and "json_representable g"
    and "\<not> has_bigint d"
  shows "calls (redis (snd (cacheItineraryList u f d st))) =
           calls (redis st) @ [SETEX (''itineraries:'' @ u @ '':'' @ base64 (ser f)) 600 (ser d)]
       \<and> calls (redis (snd (getCachedItineraryList u f st))) =
           calls (redis st) @ [GET (''itineraries:'' @ u @ '':'' @ base64 (ser f))]
       \<and> calls (redis (snd (cachePublicItineraries f d st))) =
           calls (redis st) @ [SETEX (''public_itineraries:'' @ base64 (ser f)) 300 (ser d)]
       \<and> calls (redis (snd (getCachedPublicItineraries f st))) =
           calls (redis st) @ [GET (''public_itineraries:'' @ base64 (ser f))]
       \<and> ((''itineraries:'' @ u @ '':'' @ base64 (ser f) = ''itineraries:'' @ u @ '':'' @ base64 (ser g))
            = (f = g))
       \<and> ((''public_itineraries:'' @ base64 (ser f) = ''public_itineraries:'' @ base64 (ser g))
            = (f = g))"
proof -
  from assms(1) obtain c where c: "redisClient st = Some c"
    by auto
  have nf: "\<not> has_bigint f"
    by (rule representable_no_bigint [OF assms(2)])
  have w1: "calls (redis (snd (cacheItineraryList u f d st))) =
           calls (redis st) @ [SETEX (''itineraries:'' @ u @ '':'' @ base64 (ser f)) 600 (ser d)]"
    using c nf assms(4) list_set_chain_state [of f d "''itineraries:'' @ u @ '':''" 600 st]
    by (simp add: cacheItineraryList_def calls_issue)
  have w2: "calls (redis (snd (cachePublicItineraries f d st))) =
           calls (redis st) @ [SETEX (''public_itineraries:'' @ base64 (ser f)) 300 (ser d)]"
    using c nf assms(4) list_set_chain_state [of f d "''public_itineraries:''" 300 st]
    by (simp add: cachePublicItineraries_def calls_issue)
  have r1: "calls (redis (snd (getCachedItineraryList u f st))) =
           calls (redis st) @ [GET (''itineraries:'' @ u @ '':'' @ base64 (ser f))]"
    using c nf list_get_chain_state [of f "''itineraries:'' @ u @ '':''" st]
    by (simp add: getCachedItineraryList_def calls_issue)
  have r2: "calls (redis (snd (getCachedPublicItineraries f st))) =
           calls (redis st) @ [GET (''public_itineraries:'' @ base64 (ser f))]"
    using c nf list_get_chain_state [of f "''public_itineraries:''" st]
    by (simp add: getCachedPublicItineraries_def calls_issue)
  note e = encoded_filters_eq_iff [OF assms(2) assms(3)]
  have k1: "(''itineraries:'' @ u @ '':'' @ base64 (ser f) = ''itineraries:'' @ u @ '':'' @ base64 (ser g))
            = (f = g)"
    using e by simp
  have k2: "(''public_itineraries:'' @ base64 (ser f) = ''public_itineraries:'' @ base64 (ser g))
            = (f = g)"
    using e by simp
  from w1 w2 r1 r2 k1 k2 show ?thesis
    by blast
qed

theorem list_key_same_ordered_record_witness:
  "redisClient (connected idle_server) \<noteq> None \<and> json_representable filters_a
   \<and> json_representable filters_b \<and> \<not> has_bigint (JNum 7) \<and> filters_a \<noteq> filters_b
   \<and> ''itineraries:'' @ ''42'' @ '':'' @ base64 (ser filters_a)
        \<noteq> ''itineraries:'' @ ''42'' @ '':'' @ base64 (ser filters_b)
   \<and> ''public_itineraries:'' @ base64 (ser filters_a) \<noteq> ''public_itineraries:'' @ base64 (ser filters_b)
   \<and> calls (redis (snd (getCachedItineraryList ''42'' filters_a (connected idle_server)))) =
        calls (redis (connected idle_server))
        @ [GET (''itineraries:'' @ ''42'' @ '':'' @ base64 (ser filters_a))]"
proof -
  have h1: "redisClient (connected idle_server) \<noteq> None"
    by (simp add: connected_def)
  have h4: "\<not> has_bigint (JNum 7)"
    by simp
  have h5: "filters_a \<noteq> filters_b"
    by (simp add: filters_a_def filters_b_def)
  show ?thesis
    using h1 h4 h5 filters_representable
      list_key_same_ordered_record [OF h1 filters_representable(1) filters_representable(2) h4,
        of "''42''"]
    by simp
qed

section \<open>Invalidation of a user's list caches\<close>

lemma glob_star: "glob ''*'' s"
  by (induction s) simp_all

lemma glob_literal_prefix:
  "glob_free p \<Longrightarrow> glob (p @ ''*'') s \<longleftrightarrow> prefix p s"
proof (induction p arbitrary: s)
  case Nil
  then show ?case
    using glob_star [of s] by simp
next
  case (Cons c p)
  then have c: "c \<noteq> CHR ''*''" "c \<noteq> CHR ''?''" "c \<noteq> CHR ''[''" "c \<noteq> CHR 0x5C"
    and p: "glob_free p"
    by (simp_all add: glob_free_def)
  show ?case
  proof (cases s)
    case Nil
    with c show ?thesis by simp
  next
    case (Cons d t)
    with c Cons.IH [OF p, of t] show ?thesis
      by auto
  qed
qed

lemma map_of_filter_fst:
  "map_of (filter (\<lambda>e. P (fst e)) xs) k = (if P k then map_of xs k else None)"
  by (induction xs) auto



lemma invalidate_chain_kv:
  assumes "\<not> faulty (redis st) (length (calls (redis st)))"
    and "\<not> faulty (redis st) (Suc (length (calls (redis st))))"
  shows "kv (redis (snd (try_catch
            (await (on_client (client_keys pat))
               (\<lambda>keys. if 0 < length keys then on_client (client_del keys) else return ()))
            (\<lambda>e. return ()) st))) =
         filter (\<lambda>e. \<not> glob pat (fst e)) (kv (redis st))"
proof (cases "filter (glob pat) (map fst (kv (redis st))) = []")
  case True
  then have "\<forall>e \<in> set (kv (redis st)). \<not> glob pat (fst e)"
    by (auto simp: filter_empty_conv)
  then have "filter (\<lambda>e. \<not> glob pat (fst e)) (kv (redis st)) = kv (redis st)"
    by simp
  with True assms show ?thesis
    by (simp add: io_defs client_keys_def fails_now_def issue_def)
next
  case False
  have "filter (\<lambda>e. fst e \<notin> set (filter (glob pat) (map fst (kv (redis st))))) (kv (redis st)) =
        filter (\<lambda>e. \<not> glob pat (fst e)) (kv (redis st))"
    by (rule filter_cong) auto
  with False assms show ?thesis
    by (simp add: io_defs client_keys_def client_del_def fails_now_def issue_def)
qed

lemma colon_notin_base64: "CHR '':'' \<notin> set (base64 xs)"
proof -
  have "\<And>n. CHR '':'' \<noteq> b64_char n"
  proof -
    fix n
    have "b64_char n \<in> set ''ABCDEFGHIJKLMNOPQRSTUVWXYZabcdefghijklmnopqrstuvwxyz0123456789+/''"
      unfolding b64_char_def by (rule nth_mem) simp
    then show "CHR '':'' \<noteq> b64_char n"
      by auto
  qed
  then show ?thesis
    by (induction xs rule: base64.induct) (simp_all add: Let_def)
qed

lemma other_scope_not_prefixed:
  assumes "u' \<noteq> u" and "\<not> prefix (u @ '':'') u'" and "CHR '':'' \<notin> set x"
  shows "\<not> prefix (u @ '':'') (u' @ '':'' @ x)"
proof
  assume "prefix (u @ '':'') (u' @ '':'' @ x)"
  then have "prefix (u @ '':'') u' \<or> (\<exists>us. u @ '':'' = u' @ us \<and> prefix us ('':'' @ x))"
    by (simp only: prefix_append)
  with assms(2) obtain us where us: "u @ '':'' = u' @ us" and pre: "prefix us ('':'' @ x)"
    by blast
  show False
  proof (cases us)
    case Nil
    with us assms(2) show False by simp
  next
    case (Cons c vs)
    with pre have c: "c = CHR '':''" and vs: "prefix vs x"
      by simp_all
    show False
    proof (cases "vs = []")
      case True
      with us Cons c assms(1) show False by simp
    next
      case False
      from us Cons c have "last (u @ '':'') = last (u' @ CHR '':'' # vs)"
        by simp
      with False have "last vs = CHR '':''"
        by simp
      moreover have "last vs \<in> set x"
        using False vs set_mono_prefix [OF vs] by auto
      ultimately show False
        using assms(3) by simp
    qed
  qed
qed


lemma glob_free_scope: "glob_free u \<Longrightarrow> glob_free (''itineraries:'' @ u @ '':'')"
  by (simp add: glob_free_def)

lemma user_scope_pattern:
  "glob_free u \<Longrightarrow> glob (''itineraries:'' @ u @ '':*'') k \<longleftrightarrow> prefix (''itineraries:'' @ u @ '':'') k"
  using glob_literal_prefix [OF glob_free_scope, of u k] by simp

lemma invalidateUserItineraryCaches_kv:
  assumes "redisClient st \<noteq> None"
    and "\<not> faulty (redis st) (length (calls (redis st)))"
    and "\<not> faulty (redis st) (Suc (length (calls (redis st))))"
    and "glob_free u"
  shows "kv (redis (snd (invalidateUserItineraryCaches u st))) =
         filter (\<lambda>e. \<not> prefix (''itineraries:'' @ u @ '':'') (fst e)) (kv (redis st))"
proof -
  from assms(1) obtain c where c: "redisClient st = Some c"
    by auto
  have "kv (redis (snd (invalidateUserItineraryCaches u st))) =
        filter (\<lambda>e. \<not> glob (''itineraries:'' @ u @ '':*'') (fst e)) (kv (redis st))"
    using c invalidate_chain_kv [OF assms(2) assms(3), of "''itineraries:'' @ u @ '':*''"]
    by (simp add: invalidateUserItineraryCaches_def)
  then show ?thesis
    by (simp only: user_scope_pattern [OF assms(4)])
qed

text \<open>
  Claim C4 says that \<^verbatim>\<open>invalidateUserItineraryCaches(u)\<close> removes the keys of scope
  \<open>u\<close> and no key of another scope, for every \<open>u\<close> and every state.  The user id is
  pasted into a glob pattern: with the id \<^verbatim>\<open>a[b]\<close> the pattern
  \<^verbatim>\<open>itineraries:a[b]:*\<close> matches the keys of user \<^verbatim>\<open>ab\<close> and not the keys of
  \<^verbatim>\<open>a[b]\<close>; the operation removes the other user's entry and keeps its own.
\<close>

theorem invalidate_user_scope_counterexample:
  "kv (redis (connected two_scopes)) =
     [(''itineraries:a[b]:e30='', 600, ''1''), (''itineraries:ab:e30='', 600, ''2'')]
   \<and> kv (redis (snd (invalidateUserItineraryCaches ''a[b]'' (connected two_scopes)))) =
     [(''itineraries:a[b]:e30='', 600, ''1'')]"
proof -
  have h1: "redisClient (connected two_scopes) = Some Client"
    by (simp add: connected_def)
  have h2: "\<not> faulty (redis (connected two_scopes)) (length (calls (redis (connected two_scopes))))"
    by (simp add: connected_def two_scopes_def)
  have h3: "\<not> faulty (redis (connected two_scopes)) (Suc (length (calls (redis (connected two_scopes)))))"
    by (simp add: connected_def two_scopes_def)
  have k: "kv (redis (connected two_scopes)) =
     [(''itineraries:a[b]:e30='', 600, ''1''), (''itineraries:ab:e30='', 600, ''2'')]"
    by (simp add: connected_def two_scopes_def)
  have g1: "\<not> glob ''itineraries:a[b]:*'' ''itineraries:a[b]:e30=''"
    by code_simp
  have g2: "glob ''itineraries:a[b]:*'' ''itineraries:ab:e30=''"
    by code_simp
  have "kv (redis (snd (invalidateUserItineraryCaches ''a[b]'' (connected two_scopes)))) =
        filter (\<lambda>e. \<not> glob ''itineraries:a[b]:*'' (fst e)) (kv (redis (connected two_scopes)))"
    using h1 invalidate_chain_kv [OF h2 h3, of "''itineraries:a[b]:*''"]
    by (simp add: invalidateUserItineraryCaches_def)
  then show ?thesis
    unfolding k using g1 g2 by simp
qed

text \<open>
  Claim C4 as amended.  With a client whose two calls (KEYS, DEL) succeed, and a user
  id \<open>u\<close> without the characters \<^verbatim>\<open>* ? [ \\<close> (every ObjectId string is one):
  after \<^verbatim>\<open>invalidateUserItineraryCaches(u)\<close> no key \<^verbatim>\<open>itineraries:<u>:...\<close> is left,
  whatever filter encoding follows the prefix; the list keys of every other user id
  that does not begin with \<open>u\<close> and a colon, the keys of the public namespace, and
  every other key that does not begin with \<^verbatim>\<open>itineraries:<u>:\<close> keep their entries.
\<close>

theorem invalidate_user_scope:
  assumes "redisClient st \<noteq> None"
    and "\<not> faulty (redis st) (length (calls (redis st)))"
    and "\<not> faulty (redis st) (Suc (length (calls (redis st))))"
    and "glob_free u"
  shows "(\<forall>x. map_of (kv (redis (snd (invalidateUserItineraryCaches u st))))
                (''itineraries:'' @ u @ '':'' @ x) = None)
       \<and> (\<forall>u' f. u' \<noteq> u \<and> \<not> prefix (u @ '':'') u' \<longrightarrow>
             map_of (kv (redis (snd (invalidateUserItineraryCaches u st))))
               (''itineraries:'' @ u' @ '':'' @ base64 (ser f)) =
             map_of (kv (redis st)) (''itineraries:'' @ u' @ '':'' @ base64 (ser f)))
       \<and> (\<forall>x. map_of (kv (redis (snd (invalidateUserItineraryCaches u st))))
                (''public_itineraries:'' @ x) =
              map_of (kv (redis st)) (''public_itineraries:'' @ x))
       \<and> (\<forall>k. \<not> prefix (''itineraries:'' @ u @ '':'') k \<longrightarrow>
              map_of (kv (redis (snd (invalidateUserItineraryCaches u st)))) k =
              map_of (kv (redis st)) k)"
proof -
  note kv' = invalidateUserItineraryCaches_kv [OF assms]
  have own: "\<And>x. map_of (kv (redis (snd (invalidateUserItineraryCaches u st))))
                (''itineraries:'' @ u @ '':'' @ x) = None"
  proof -
    fix x
    have "prefix (''itineraries:'' @ u @ '':'') (''itineraries:'' @ u @ '':'' @ x)"
      by simp
    then show "map_of (kv (redis (snd (invalidateUserItineraryCaches u st))))
                (''itineraries:'' @ u @ '':'' @ x) = None"
      unfolding kv' map_of_filter_fst [of "\<lambda>k. \<not> prefix (''itineraries:'' @ u @ '':'') k"]
      by simp
  qed
  have frame: "\<And>k. \<not> prefix (''itineraries:'' @ u @ '':'') k \<Longrightarrow>
              map_of (kv (redis (snd (invalidateUserItineraryCaches u st)))) k =
              map_of (kv (redis st)) k"
    unfolding kv' map_of_filter_fst [of "\<lambda>k. \<not> prefix (''itineraries:'' @ u @ '':'') k"]
    by simp
  have other: "\<And>u' f. u' \<noteq> u \<Longrightarrow> \<not> prefix (u @ '':'') u' \<Longrightarrow>
             map_of (kv (redis (snd (invalidateUserItineraryCaches u st))))
               (''itineraries:'' @ u' @ '':'' @ base64 (ser f)) =
             map_of (kv (redis st)) (''itineraries:'' @ u' @ '':'' @ base64 (ser f))"
  proof -
    fix u' f
    assume "u' \<noteq> u" "\<not> prefix (u @ '':'') u'"
    from other_scope_not_prefixed [OF this colon_notin_base64 [of "ser f"]]
    have "\<not> prefix (''itineraries:'' @ u @ '':'') (''itineraries:'' @ u' @ '':'' @ base64 (ser f))"
      by simp
    then show "map_of (kv (redis (snd (invalidateUserItineraryCaches u st))))
               (''itineraries:'' @ u' @ '':'' @ base64 (ser f)) =
             map_of (kv (redis st)) (''itineraries:'' @ u' @ '':'' @ base64 (ser f))"
      by (rule frame)
  qed
  have pub: "\<And>x. map_of (kv (redis (snd (invalidateUserItineraryCaches u st))))
                (''public_itineraries:'' @ x) =
              map_of (kv (redis st)) (''public_itineraries:'' @ x)"
    by (rule frame) simp
  from own frame other pub show ?thesis
    by blast
qed

theorem invalidate_user_scope_witness:
  "redisClient (connected spec_scopes) \<noteq> None
   \<and> \<not> faulty (redis (connected spec_scopes)) (length (calls (redis (connected spec_scopes))))
   \<and> \<not> faulty (redis (connected spec_scopes)) (Suc (length (calls (redis (connected spec_scopes)))))
   \<and> glob_free ''user:42'' \<and> ''user:43'' \<noteq> ''user:42'' \<and> \<not> prefix (''user:42'' @ '':'') ''user:43''
   \<and> map_of (kv (redis (snd (invalidateUserItineraryCaches ''user:42'' (connected spec_scopes)))))
        (''itineraries:'' @ ''user:42'' @ '':'' @ ''e30='') = None
   \<and> map_of (kv (redis (snd (invalidateUserItineraryCaches ''user:42'' (connected spec_scopes)))))
        (''itineraries:'' @ ''user:42'' @ '':'' @ ''eyJwYWdlIjoxfQ=='') = None
   \<and> map_of (kv (redis (snd (invalidateUserItineraryCaches ''user:42'' (connected spec_scopes)))))
        (''itineraries:'' @ ''user:42'' @ '':'' @ ''eyJwYWdlIjoyfQ=='') = None
   \<and> map_of (kv (redis (snd (invalidateUserItineraryCaches ''user:42'' (connected spec_scopes)))))
        (''itineraries:'' @ ''user:43'' @ '':'' @ base64 (ser (JObj []))) = Some (600, ''3'')
   \<and> map_of (kv (redis (snd (invalidateUserItineraryCaches ''user:42'' (connected spec_scopes)))))
        (''public_itineraries:'' @ ''e30='') = Some (300, ''5'')"
proof -
  have h1: "redisClient (connected spec_scopes) \<noteq> None"
    by (simp add: connected_def)
  have h2: "\<not> faulty (redis (connected spec_scopes)) (length (calls (redis (connected spec_scopes))))"
    by (simp add: connected_def spec_scopes_def)
  have h3: "\<not> faulty (redis (connected spec_scopes)) (Suc (length (calls (redis (connected spec_scopes)))))"
    by (simp add: connected_def spec_scopes_def)
  have h4: "glob_free ''user:42''"
    by (simp add: glob_free_def)
  have h5: "''user:43'' \<noteq> ''user:42'' \<and> \<not> prefix (''user:42'' @ '':'') ''user:43''"
    by simp
  have e: "base64 (ser (JObj [])) = ''e30=''"
    by code_simp
  have k: "kv (redis (connected spec_scopes)) =
      [(''itineraries:user:42:e30='', 600, ''1''),
       (''itineraries:user:42:eyJwYWdlIjoxfQ=='', 600, ''2''),
       (''itineraries:user:43:e30='', 600, ''3''),
       (''itineraries:user:42:eyJwYWdlIjoyfQ=='', 600, ''4''),
       (''public_itineraries:e30='', 300, ''5'')]"
    by (simp add: connected_def spec_scopes_def)
  note t = invalidate_user_scope [OF h1 h2 h3 h4]
  note a = t [THEN conjunct1, THEN spec]
  note b = t [THEN conjunct2, THEN conjunct1, THEN spec, THEN spec, THEN mp,
              of "''user:43''" "JObj []", OF h5]
  note c = t [THEN conjunct2, THEN conjunct2, THEN conjunct1, THEN spec, of "''e30=''"]
  have b': "map_of (kv (redis (snd (invalidateUserItineraryCaches ''user:42'' (connected spec_scopes)))))
        (''itineraries:'' @ ''user:43'' @ '':'' @ base64 (ser (JObj []))) = Some (600, ''3'')"
    using b unfolding e k by simp
  have c': "map_of (kv (redis (snd (invalidateUserItineraryCaches ''user:42'' (connected spec_scopes)))))
        (''public_itineraries:'' @ ''e30='') = Some (300, ''5'')"
    using c unfolding k by simp
  from h1 h2 h3 h4 h5 a [of "''e30=''"] a [of "''eyJwYWdlIjoxfQ==''"] a [of "''eyJwYWdlIjoyfQ==''"] b' c'
  show ?thesis
    by (intro conjI) (rule TrueI | assumption | erule conjunct1 | erule conjunct2)+
qed

section \<open>The controller's invalidations\<close>

lemmas ctl_defs = handler_def await_def return_def throw_def on_cache_def findById_def populate_def
  create_def findByIdAndUpdate_def findByIdAndDelete_def status_of_def failure_def



lemma hex_char_plain:
  "hex_char n \<noteq> CHR ''*'' \<and> hex_char n \<noteq> CHR ''?'' \<and> hex_char n \<noteq> CHR ''['' \<and> hex_char n \<noteq> CHR 0x5C"
proof -
  have "hex_char n \<in> set ''0123456789abcdef''"
    unfolding hex_char_def by (rule nth_mem) simp
  then show ?thesis
    by auto
qed

lemma glob_free_toHexString: "glob_free (toHexString oid)"
  by (cases oid) (simp add: toHexString_def glob_free_def hex_char_plain)

lemma invalidateItineraryCache_state:
  assumes "redisClient st = Some c"
  shows "snd (invalidateItineraryCache i st) =
         st\<lparr>redis := (if fails_now (redis st) then issue (DEL [''itinerary:'' @ i]) (redis st)
                       else (issue (DEL [''itinerary:'' @ i]) (redis st))
                              \<lparr>kv := filter (\<lambda>e. fst e \<notin> set [''itinerary:'' @ i]) (kv (redis st))\<rparr>)\<rparr>"
  using assms by (simp add: invalidateItineraryCache_def io_defs client_del_def)









section \<open>What the controller leaves in the cache\<close>

subsection \<open>Public lists\<close>

lemma invalidateItineraryCache_frame:
  "k \<noteq> ''itinerary:'' @ i \<Longrightarrow>
   map_of (kv (redis (snd (invalidateItineraryCache i st)))) k = map_of (kv (redis st)) k"
proof (cases "redisClient st")
  case None
  then show ?thesis by (simp add: invalidateItineraryCache_def)
next
  case (Some c)
  assume "k \<noteq> ''itinerary:'' @ i"
  then show ?thesis
    unfolding invalidateItineraryCache_state [OF Some]
    using map_of_filter_fst [of "\<lambda>k. k \<noteq> ''itinerary:'' @ i" "kv (redis st)" k]
    by (simp add: issue_def)
qed

lemma invalidateUserItineraryCaches_frame:
  assumes "\<not> glob (''itineraries:'' @ u @ '':*'') k"
  shows "map_of (kv (redis (snd (invalidateUserItineraryCaches u st)))) k = map_of (kv (redis st)) k"
proof -
  let ?pat = "''itineraries:'' @ u @ '':*''"
  let ?keys = "filter (glob ?pat) (map fst (kv (redis st)))"
  have k: "k \<notin> set ?keys"
    using assms by simp
  have "map_of (filter (\<lambda>e. fst e \<notin> set ?keys) (kv (redis st))) k = map_of (kv (redis st)) k"
    using k map_of_filter_fst [of "\<lambda>k. k \<notin> set ?keys" "kv (redis st)" k] by simp
  then show ?thesis
    by (simp add: invalidateUserItineraryCaches_def io_defs client_keys_def client_del_def issue_def)
qed

lemma public_key_not_matched:
  "\<not> glob (''itineraries:'' @ toHexString oid @ '':*'') (''public_itineraries:'' @ x)"
  using user_scope_pattern [OF glob_free_toHexString, of oid "''public_itineraries:'' @ x"]
  by simp

lemma create_cache_cases:
  "cache_st (snd (createItinerary sch req w)) = cache_st w
   \<or> cache_st (snd (createItinerary sch req w)) =
       snd (invalidateUserItineraryCaches (toHexString (req_user req)) (cache_st w))"
  by (auto simp: createItinerary_def ctl_defs Let_def split: option.splits sum.splits prod.splits)

lemma update_cache_cases:
  "cache_st (snd (updateItinerary sch req w)) = cache_st w
   \<or> cache_st (snd (updateItinerary sch req w)) =
       snd (invalidateItineraryCache (toHexString (params_id req)) (cache_st w))
   \<or> cache_st (snd (updateItinerary sch req w)) =
       snd (invalidateUserItineraryCaches (toHexString (req_user req))
              (snd (invalidateItineraryCache (toHexString (params_id req)) (cache_st w))))"
  by (auto simp: updateItinerary_def ctl_defs Let_def split: option.splits sum.splits prod.splits)

lemma delete_cache_cases:
  "cache_st (snd (deleteItinerary req w)) = cache_st w
   \<or> cache_st (snd (deleteItinerary req w)) =
       snd (invalidateItineraryCache (toHexString (params_id req)) (cache_st w))
   \<or> cache_st (snd (deleteItinerary req w)) =
       snd (invalidateUserItineraryCaches (toHexString (req_user req))
              (snd (invalidateItineraryCache (toHexString (params_id req)) (cache_st w))))"
proof (cases "find (\<lambda>d. itinerary_id d = params_id req) (itineraries w)")
  case None
  then show ?thesis
    by (auto simp: deleteItinerary_def ctl_defs)
next
  case (Some d)
  then have "itinerary_id d = params_id req"
    by (auto simp: find_Some_iff)
  with Some show ?thesis
    by (auto simp: deleteItinerary_def ctl_defs split: sum.splits prod.splits)
qed

lemma public_key_frames:
  "map_of (kv (redis (snd (invalidateItineraryCache i st)))) (''public_itineraries:'' @ x) =
     map_of (kv (redis st)) (''public_itineraries:'' @ x)"
  "map_of (kv (redis (snd (invalidateUserItineraryCaches (toHexString oid) st))))
       (''public_itineraries:'' @ x) =
     map_of (kv (redis st)) (''public_itineraries:'' @ x)"
proof -
  have "''public_itineraries:'' @ x \<noteq> ''itinerary:'' @ i"
    by simp
  then show "map_of (kv (redis (snd (invalidateItineraryCache i st)))) (''public_itineraries:'' @ x) =
     map_of (kv (redis st)) (''public_itineraries:'' @ x)"
    by (rule invalidateItineraryCache_frame)
  show "map_of (kv (redis (snd (invalidateUserItineraryCaches (toHexString oid) st))))
       (''public_itineraries:'' @ x) =
     map_of (kv (redis st)) (''public_itineraries:'' @ x)"
    by (rule invalidateUserItineraryCaches_frame [OF public_key_not_matched])
qed

lemma mutations_keep_public_lists:
  "map_of (kv (redis (cache_st (snd (createItinerary sch req w))))) (''public_itineraries:'' @ x) =
     map_of (kv (redis (cache_st w))) (''public_itineraries:'' @ x)"
  "map_of (kv (redis (cache_st (snd (updateItinerary sch req w))))) (''public_itineraries:'' @ x) =
     map_of (kv (redis (cache_st w))) (''public_itineraries:'' @ x)"
  "map_of (kv (redis (cache_st (snd (deleteItinerary req w))))) (''public_itineraries:'' @ x) =
     map_of (kv (redis (cache_st w))) (''public_itineraries:'' @ x)"
proof -
  let ?E = "toHexString (params_id req)"
  note f1 = public_key_frames(1) [of ?E "cache_st w" x]
  note f2 = public_key_frames(2) [of "req_user req" "cache_st w" x]
  note f3 = public_key_frames(2) [of "req_user req" "snd (invalidateItineraryCache ?E (cache_st w))" x]
  show "map_of (kv (redis (cache_st (snd (createItinerary sch req w))))) (''public_itineraries:'' @ x) =
     map_of (kv (redis (cache_st w))) (''public_itineraries:'' @ x)"
    using create_cache_cases [of sch req w] f2 by (elim disjE) (simp_all only:)
  show "map_of (kv (redis (cache_st (snd (updateItinerary sch req w))))) (''public_itineraries:'' @ x) =
     map_of (kv (redis (cache_st w))) (''public_itineraries:'' @ x)"
    using update_cache_cases [of sch req w] f1 f2 f3 by (elim disjE) (simp_all only:)
  show "map_of (kv (redis (cache_st (snd (deleteItinerary req w))))) (''public_itineraries:'' @ x) =
     map_of (kv (redis (cache_st w))) (''public_itineraries:'' @ x)"
    using delete_cache_cases [of req w] f1 f2 f3 by (elim disjE) (simp_all only:)
qed

text \<open>
  The schema at work: the document \<open>trip\<close> of the example world is what
  \<^verbatim>\<open>Itinerary.create\<close> makes of a body with the four required paths, and a body with a
  title only is refused, so that the handler ends in \<^verbatim>\<open>next(error)\<close> without a
  command to the cache.
\<close>

lemma create_casts_required_paths:
  "cast_create Itinerary
     (JObj [(''title'', JStr '' Paris Trip''), (''destination'', JStr ''France''),
            (''startDate'', JStr ''2025-05-01''), (''endDate'', JStr ''2025-05-07'')])
   = Inr (props trip)"
  by code_simp

lemma create_needs_required_paths:
  "fst (createItinerary Itinerary rename_request cached_world) = Next ValidationError
   \<and> itineraries (snd (createItinerary Itinerary rename_request cached_world)) = [trip]
   \<and> calls (redis (cache_st (snd (createItinerary Itinerary rename_request cached_world)))) = []"
  by code_simp

text \<open>
  Claim C2 says that a mutation of an itinerary also invalidates the public list
  caches.  No handler calls \<^verbatim>\<open>invalidatePublicItineraryCaches\<close>: whatever the world and
  the request, the three mutating handlers leave every key of the public namespace as
  it was (lemma \<open>mutations_keep_public_lists\<close>).  In the example world a public list
  is cached under \<^verbatim>\<open>public_itineraries:e30=\<close>.  The create request, whose body has
  every path that the schema of \<^verbatim>\<open>models/Itinerary.js\<close> requires, is answered with
  201: the new itinerary is in the persistent store and the list of the user is
  invalidated.  The update and the delete request are answered with 200: the
  itinerary is renamed, respectively gone.  After each of them the public entry is
  still in the store.
\<close>

theorem public_lists_survive_mutations:
  "map_of (kv (redis (cache_st cached_world))) ''public_itineraries:e30='' = Some (300, ''[]'')
   \<and> status_of (fst (createItinerary Itinerary create_request cached_world)) = Some 201
   \<and> map itinerary_id (itineraries (snd (createItinerary Itinerary create_request cached_world))) =
        [ObjectId 0xE1, ObjectId 0xE2]
   \<and> map_of (kv (redis (cache_st (snd (createItinerary Itinerary create_request cached_world)))))
        ''itineraries:0000000000000000000000a1:e30='' = None
   \<and> map_of (kv (redis (cache_st (snd (createItinerary Itinerary create_request cached_world)))))
        ''public_itineraries:e30='' = Some (300, ''[]'')
   \<and> status_of (fst (updateItinerary Itinerary rename_request cached_world)) = Some 200
   \<and> map (\<lambda>d. map_of (props d) ''title'')
         (itineraries (snd (updateItinerary Itinerary rename_request cached_world))) =
        [Some (JStr ''Rome'')]
   \<and> map_of (kv (redis (cache_st (snd (updateItinerary Itinerary rename_request cached_world)))))
        ''public_itineraries:e30='' = Some (300, ''[]'')
   \<and> status_of (fst (deleteItinerary rename_request cached_world)) = Some 200
   \<and> itineraries (snd (deleteItinerary rename_request cached_world)) = []
   \<and> map_of (kv (redis (cache_st (snd (deleteItinerary rename_request cached_world)))))
        ''public_itineraries:e30='' = Some (300, ''[]'')"
proof -
  have b: "map_of (kv (redis (cache_st cached_world))) ''public_itineraries:e30='' = Some (300, ''[]'')"
    by (simp add: cached_world_def connected_def)
  have s1: "status_of (fst (createItinerary Itinerary create_request cached_world)) = Some 201"
    by code_simp
  have d1: "map itinerary_id (itineraries (snd (createItinerary Itinerary create_request cached_world))) =
        [ObjectId 0xE1, ObjectId 0xE2]"
    by code_simp
  have u1: "map_of (kv (redis (cache_st (snd (createItinerary Itinerary create_request cached_world)))))
        ''itineraries:0000000000000000000000a1:e30='' = None"
    by code_simp
  have s2: "status_of (fst (updateItinerary Itinerary rename_request cached_world)) = Some 200"
    by code_simp
  have d2: "map (\<lambda>d. map_of (props d) ''title'')
         (itineraries (snd (updateItinerary Itinerary rename_request cached_world))) =
        [Some (JStr ''Rome'')]"
    by code_simp
  have s3: "status_of (fst (deleteItinerary rename_request cached_world)) = Some 200"
    by code_simp
  have d3: "itineraries (snd (deleteItinerary rename_request cached_world)) = []"
    by code_simp
  note m1 = mutations_keep_public_lists(1) [of Itinerary create_request cached_world "''e30=''"]
  note m2 = mutations_keep_public_lists(2) [of Itinerary rename_request cached_world "''e30=''"]
  note m3 = mutations_keep_public_lists(3) [of rename_request cached_world "''e30=''"]
  have k: "''public_itineraries:'' @ ''e30='' = ''public_itineraries:e30=''"
    by simp
  have p1: "map_of (kv (redis (cache_st (snd (createItinerary Itinerary create_request cached_world)))))
        ''public_itineraries:e30='' = Some (300, ''[]'')"
    using b m1 [unfolded k] by simp
  have p2: "map_of (kv (redis (cache_st (snd (updateItinerary Itinerary rename_request cached_world)))))
        ''public_itineraries:e30='' = Some (300, ''[]'')"
    using b m2 [unfolded k] by simp
  have p3: "map_of (kv (redis (cache_st (snd (deleteItinerary rename_request cached_world)))))
        ''public_itineraries:e30='' = Some (300, ''[]'')"
    using b m3 [unfolded k] by simp
  from b s1 d1 u1 p1 s2 d2 p2 s3 d3 p3 show ?thesis
    by (intro conjI)
qed


subsection \<open>The single-itinerary read\<close>

lemma cacheItinerary_calls:
  "calls (redis (snd (cacheItinerary i d st))) = calls (redis st)
   \<or> calls (redis (snd (cacheItinerary i d st))) =
       calls (redis st) @ [SETEX (''itinerary:'' @ i) 1800 (ser d)]"
  by (simp add: cacheItinerary_def io_defs JSON_stringify_def client_setEx_def issue_def)

lemma getItinerary_cache_cases:
  "cache_st (snd (getItinerary os req w)) = cache_st w
   \<or> (\<exists>i d. cache_st (snd (getItinerary os req w)) = snd (cacheItinerary i d (cache_st w)))"
  by (auto simp: getItinerary_def ctl_defs split: option.splits sum.splits prod.splits)
     (metis snd_conv)+

lemma getItinerary_never_reads_cache:
  "\<exists>cs. calls (redis (cache_st (snd (getItinerary os req w)))) = calls (redis (cache_st w)) @ cs
        \<and> (\<forall>k. GET k \<notin> set cs)"
proof -
  from getItinerary_cache_cases [of os req w]
  consider "cache_st (snd (getItinerary os req w)) = cache_st w"
    | i d where "cache_st (snd (getItinerary os req w)) = snd (cacheItinerary i d (cache_st w))"
    by blast
  then show ?thesis
  proof cases
    case 1
    then have "calls (redis (cache_st (snd (getItinerary os req w)))) = calls (redis (cache_st w)) @ []"
      by simp
    then show ?thesis
      by (intro exI [of _ "[]"]) simp
  next
    case (2 i d)
    from cacheItinerary_calls [of i d "cache_st w"] show ?thesis
    proof
      assume "calls (redis (snd (cacheItinerary i d (cache_st w)))) = calls (redis (cache_st w))"
      with 2 show ?thesis
        by (intro exI [of _ "[]"]) simp
    next
      assume "calls (redis (snd (cacheItinerary i d (cache_st w)))) =
                calls (redis (cache_st w)) @ [SETEX (''itinerary:'' @ i) 1800 (ser d)]"
      with 2 show ?thesis
        by (intro exI [of _ "[SETEX (''itinerary:'' @ i) 1800 (ser d)]"]) simp
    qed
  qed
qed

text \<open>
  Claim C3 says that \<^verbatim>\<open>getItinerary\<close> checks the entity cache first and reads the
  persistent store on a miss only.  The handler never issues a GET (lemma
  \<open>getItinerary_never_reads_cache\<close>).  In the example world the key
  \<^verbatim>\<open>itinerary:0000000000000000000000e1\<close> holds a payload that
  \<^verbatim>\<open>getCachedItinerary\<close> would return; the handler answers with the document of the
  persistent store and its only command is the SETEX that overwrites the entry; with
  the persistent store failing, the same request ends in the store's error although
  the entry is cached.
\<close>

theorem getItinerary_bypasses_cache:
  "map_of (kv (redis (cache_st cached_world))) ''itinerary:0000000000000000000000e1'' = Some (1800, ''{}'')
   \<and> fst (getCachedItinerary ''0000000000000000000000e1'' (cache_st cached_world)) = Inr (JObj [])
   \<and> fst (getItinerary owner_id_string rename_request cached_world) =
        Json 200 (JObj [(''success'', JBool True),
                        (''itinerary'', toJSON \<lparr>doc = trip, owner = Some ann\<rparr>)])
   \<and> calls (redis (cache_st (snd (getItinerary owner_id_string rename_request cached_world)))) =
        [SETEX ''itinerary:0000000000000000000000e1'' 1800 (ser (toJSON \<lparr>doc = trip, owner = Some ann\<rparr>))]
   \<and> fst (getItinerary owner_id_string rename_request (cached_world\<lparr>db_up := False\<rparr>)) = Next StoreError
   \<and> calls (redis (cache_st (snd (getItinerary owner_id_string rename_request
                                    (cached_world\<lparr>db_up := False\<rparr>))))) = []"
proof -
  have a: "map_of (kv (redis (cache_st cached_world))) ''itinerary:0000000000000000000000e1''
             = Some (1800, ''{}'')"
    by (simp add: cached_world_def connected_def)
  have b: "fst (getCachedItinerary ''0000000000000000000000e1'' (cache_st cached_world)) = Inr (JObj [])"
    by code_simp
  have c: "fst (getItinerary owner_id_string rename_request cached_world) =
        Json 200 (JObj [(''success'', JBool True),
                        (''itinerary'', toJSON \<lparr>doc = trip, owner = Some ann\<rparr>)])"
    by code_simp
  have d: "calls (redis (cache_st (snd (getItinerary owner_id_string rename_request cached_world)))) =
        [SETEX ''itinerary:0000000000000000000000e1'' 1800 (ser (toJSON \<lparr>doc = trip, owner = Some ann\<rparr>))]"
    by code_simp
  have e: "fst (getItinerary owner_id_string rename_request (cached_world\<lparr>db_up := False\<rparr>))
             = Next StoreError"
    by code_simp
  have f: "calls (redis (cache_st (snd (getItinerary owner_id_string rename_request
                                    (cached_world\<lparr>db_up := False\<rparr>))))) = []"
    by code_simp
  from a b c d e f show ?thesis
    by (intro conjI)
qed

end
